theory Spec2Isabelle
  imports Complex_Main "HOL-Library.Word" "HOL-Library.Log_Nat"
begin

section \<open>VideoCut: the range-request media server and the export pipeline\<close>

text \<open>
  A shallow embedding of \<^verbatim>\<open>src/videocut.py\<close>: the two request handlers
  \<^verbatim>\<open>VideoCutHandler._serve_video\<close> and \<^verbatim>\<open>VideoCutHandler._handle_export\<close>,
  together with the part of the Python standard library they rely on (string
  methods, \<^verbatim>\<open>int()\<close>, \<^verbatim>\<open>posixpath\<close>, float subtraction and \<^verbatim>\<open>'.4f'\<close> formatting).

  Python strings are modelled as \<^typ>\<open>string\<close>; a \<^typ>\<open>char\<close> stands for one code point
  below 256 (HTTP header values reach the handler decoded as ISO-8859-1, so that is
  exact for the \<^verbatim>\<open>Range\<close> header). Python exceptions are values of \<open>py_exception\<close>.
\<close>

subsection \<open>Python exceptions\<close>

datatype py_exception =
    ValueError
  | IndexError
  | OverflowError
  | OSError string
  | TimeoutExpired

subsection \<open>Decimal text of integers: \<^verbatim>\<open>str(n)\<close>, \<^verbatim>\<open>f"{n}"\<close>, \<^verbatim>\<open>f"{i:04d}"\<close>\<close>

definition digit_char :: "nat \<Rightarrow> char" where
  "digit_char d = char_of (48 + d)"

fun str_nat :: "nat \<Rightarrow> string" where
  "str_nat n = (if n < 10 then [digit_char n] else str_nat (n div 10) @ [digit_char (n mod 10)])"

declare str_nat.simps [simp del]

definition str_int :: "int \<Rightarrow> string" where
  "str_int i = (if i < 0 then CHR ''-'' # str_nat (nat (- i)) else str_nat (nat i))"

text \<open>\<^verbatim>\<open>f"{i:0Wd}"\<close> for a non-negative \<open>i\<close>: zero-padded on the left to width \<open>W\<close>,
  never truncated.\<close>

definition zero_pad :: "nat \<Rightarrow> nat \<Rightarrow> string" where
  "zero_pad w n = replicate (w - length (str_nat n)) CHR ''0'' @ str_nat n"

subsection \<open>String methods\<close>

text \<open>\<^verbatim>\<open>s.replace(old, new)\<close> for a non-empty \<open>old\<close>: every non-overlapping occurrence,
  scanning from the left.\<close>

function py_replace :: "string \<Rightarrow> string \<Rightarrow> string \<Rightarrow> string" where
  "py_replace old new [] = []"
| "py_replace old new (c # cs) =
     (if old \<noteq> [] \<and> take (length old) (c # cs) = old
      then new @ py_replace old new (drop (length old) (c # cs))
      else c # py_replace old new cs)"
  by pat_completeness auto
termination
  by (relation "measure (\<lambda>(old, new, s). length s)") (auto simp: neq_Nil_conv)

text \<open>\<^verbatim>\<open>s.split(sep)\<close> for a one-character separator: one more piece than there are
  separators, empty pieces kept.\<close>

fun py_split :: "char \<Rightarrow> string \<Rightarrow> string list" where
  "py_split sep [] = [[]]"
| "py_split sep (c # cs) =
     (if c = sep then [] # py_split sep cs
      else (case py_split sep cs of
              [] \<Rightarrow> [[c]]
            | w # ws \<Rightarrow> (c # w) # ws))"

text \<open>\<^verbatim>\<open>s[-n:]\<close>: the last \<open>n\<close> characters of \<open>s\<close> (all of \<open>s\<close> when it is shorter).\<close>

definition tail_chars :: "nat \<Rightarrow> string \<Rightarrow> string" where
  "tail_chars n s = drop (length s - n) s"

subsection \<open>\<^verbatim>\<open>int(s)\<close> on a string\<close>

text \<open>
  \<^verbatim>\<open>int(s)\<close> in base 10: surrounding whitespace is stripped, one sign is allowed, then
  decimal digits, where single underscores may stand between digits. Anything else
  raises \<^verbatim>\<open>ValueError\<close>, as does a literal of more than \<open>int_max_str_digits\<close> digits
  (the interpreter's default limit). The whitespace \<^verbatim>\<open>int\<close> strips is tab, line feed,
  vertical tab, form feed, carriage return and space, and of the code points from
  128 on the two that are spaces, 133 and 160; the separators 28 to 31, which
  \<^verbatim>\<open>str.strip\<close> would remove, are not among them.
\<close>

definition is_digit :: "char \<Rightarrow> bool" where
  "is_digit c = (48 \<le> (of_char c :: nat) \<and> (of_char c :: nat) \<le> 57)"

definition digit_val :: "char \<Rightarrow> nat" where
  "digit_val c = (of_char c :: nat) - 48"

definition is_space :: "char \<Rightarrow> bool" where
  "is_space c = ((of_char c :: nat) \<in> {9, 10, 11, 12, 13, 32, 133, 160})"

definition py_strip :: "string \<Rightarrow> string" where
  "py_strip s = rev (dropWhile is_space (rev (dropWhile is_space s)))"

definition int_max_str_digits :: nat where
  "int_max_str_digits = 4300"

text \<open>The digits of a literal, underscores removed; \<open>None\<close> when the grouping is not
  \<open>digit (_? digit)*\<close>.\<close>

fun digits_of :: "string \<Rightarrow> string option" where
  "digits_of [] = None"
| "digits_of [c] = (if is_digit c then Some [c] else None)"
| "digits_of (c # d # cs) =
     (if \<not> is_digit c then None
      else if d = CHR ''_'' then map_option ((#) c) (digits_of cs)
      else map_option ((#) c) (digits_of (d # cs)))"

definition nat_of_digits :: "string \<Rightarrow> nat" where
  "nat_of_digits ds = foldl (\<lambda>acc c. 10 * acc + digit_val c) 0 ds"

definition py_int :: "string \<Rightarrow> py_exception + int" where
  "py_int s =
     (let t = py_strip s;
          (neg, u) = (case t of
                        c # cs \<Rightarrow> if c = CHR ''-'' then (True, cs)
                                  else if c = CHR ''+'' then (False, cs)
                                  else (False, t)
                      | [] \<Rightarrow> (False, t))
      in case digits_of u of
           None \<Rightarrow> Inl ValueError
         | Some ds \<Rightarrow>
             if length ds > int_max_str_digits then Inl ValueError
             else Inr (if neg then - int (nat_of_digits ds) else int (nat_of_digits ds)))"

subsection \<open>The media server: \<^verbatim>\<open>_serve_video\<close>\<close>

type_synonym byte = "8 word"

text \<open>
  What the handler sends: \<^verbatim>\<open>send_error(code)\<close>, or a status line, the headers in the
  order of the \<^verbatim>\<open>send_header\<close> calls, and the bytes written to \<^verbatim>\<open>wfile\<close>. An
  exception raised while the \<^verbatim>\<open>Range\<close> header is parsed leaves the handler before
  anything is sent.
\<close>

record http_response =
  status :: nat
  headers :: "(string \<times> string) list"
  body :: "byte list"

datatype serve_result =
    SendError nat
  | Raised py_exception
  | Sent http_response

text \<open>
  \<^verbatim>\<open>ranges = range_header.replace("bytes=", "").split("-")\<close>,
  \<^verbatim>\<open>start = int(ranges[0]) if ranges[0] else 0\<close>,
  \<^verbatim>\<open>end = int(ranges[1]) if ranges[1] else file_size - 1\<close>.
  \<^verbatim>\<open>ranges[0]\<close> always exists; \<^verbatim>\<open>ranges[1]\<close> raises \<^verbatim>\<open>IndexError\<close> when the header
  holds no \<^verbatim>\<open>-\<close>.
\<close>

definition parse_range :: "string \<Rightarrow> int \<Rightarrow> py_exception + (int \<times> int)" where
  "parse_range range_header file_size =
     (let ranges = py_split CHR ''-'' (py_replace ''bytes='' '''' range_header);
          r0 = hd ranges
      in case (if r0 \<noteq> [] then py_int r0 else Inr 0) of
           Inl e \<Rightarrow> Inl e
         | Inr start \<Rightarrow>
             (case tl ranges of
                [] \<Rightarrow> Inl IndexError
              | r1 # _ \<Rightarrow>
                  (case (if r1 \<noteq> [] then py_int r1 else Inr (file_size - 1)) of
                     Inl e \<Rightarrow> Inl e
                   | Inr end \<Rightarrow> Inr (start, end))))"

text \<open>
  The range loop. \<open>pos\<close> is the read cursor after \<^verbatim>\<open>f.seek(start)\<close>; \<^verbatim>\<open>f.read(n)\<close>
  returns the next \<open>n\<close> bytes, or fewer at end of file; the result is everything written
  to \<^verbatim>\<open>wfile\<close>:
  \<^verbatim>\<open>while remaining > 0: chunk = f.read(min(65536, remaining)); if not chunk: break;
  self.wfile.write(chunk); remaining -= len(chunk)\<close>.
\<close>

definition file_read :: "byte list \<Rightarrow> nat \<Rightarrow> nat \<Rightarrow> byte list" where
  "file_read content pos n = take n (drop pos content)"

function send_range :: "byte list \<Rightarrow> nat \<Rightarrow> int \<Rightarrow> byte list" where
  "send_range content pos remaining =
     (if remaining > 0 then
        (if file_read content pos (nat (min 65536 remaining)) = [] then []
         else file_read content pos (nat (min 65536 remaining))
              @ send_range content
                  (pos + length (file_read content pos (nat (min 65536 remaining))))
                  (remaining - int (length (file_read content pos (nat (min 65536 remaining))))))
      else [])"
  by pat_completeness auto
termination
  by (relation "measure (\<lambda>(content, pos, remaining). nat remaining)") auto

declare send_range.simps [simp del]

text \<open>The whole-file loop:
  \<^verbatim>\<open>while True: chunk = f.read(65536); if not chunk: break; self.wfile.write(chunk)\<close>.\<close>

function send_all :: "byte list \<Rightarrow> nat \<Rightarrow> byte list" where
  "send_all content pos =
     (if file_read content pos 65536 = [] then []
      else file_read content pos 65536
           @ send_all content (pos + length (file_read content pos 65536)))"
  by pat_completeness auto
termination
  by (relation "measure (\<lambda>(content, pos). length content - pos)")
     (auto simp: file_read_def)

declare send_all.simps [simp del]

text \<open>
  The handler, from the decoded \<open>file_path\<close> on (the URL decoding of the request path is
  \<^verbatim>\<open>urllib.parse.unquote\<close>). \<open>files\<close> is the file system as the handler sees it: the
  content of every regular file; \<open>guess_type\<close> stands for \<^verbatim>\<open>mimetypes.guess_type(p)[0]\<close>.
  \<open>serve_full\<close> is the branch without a range, \<open>serve_partial\<close> the branch with one;
  a \<^verbatim>\<open>Range\<close> header that is absent or empty is falsy and takes the first. The parsed
  \<open>start\<close> is never negative (\<open>parse_range_start_nonneg\<close> below), so \<^verbatim>\<open>f.seek(start)\<close>
  always succeeds.
\<close>

definition content_type_of :: "(string \<Rightarrow> string option) \<Rightarrow> string \<Rightarrow> string" where
  "content_type_of guess_type file_path =
     (case guess_type file_path of None \<Rightarrow> ''video/mp4'' | Some t \<Rightarrow> t)"

definition serve_full :: "string \<Rightarrow> byte list \<Rightarrow> http_response" where
  "serve_full content_type content =
     \<lparr> status = 200,
       headers =
         [(''Content-Type'', content_type),
          (''Content-Length'', str_int (int (length content))),
          (''Accept-Ranges'', ''bytes'')],
       body = send_all content 0 \<rparr>"

definition serve_partial :: "string \<Rightarrow> byte list \<Rightarrow> int \<Rightarrow> int \<Rightarrow> http_response" where
  "serve_partial content_type content start end =
     (let file_size = int (length content);
          len = end - start + 1
      in \<lparr> status = 206,
            headers =
              [(''Content-Type'', content_type),
               (''Content-Range'',
                  ''bytes '' @ str_int start @ ''-'' @ str_int end @ ''/'' @ str_int file_size),
               (''Content-Length'', str_int len),
               (''Accept-Ranges'', ''bytes'')],
            body = send_range content (nat start) len \<rparr>)"

definition serve_video ::
  "(string \<Rightarrow> byte list option) \<Rightarrow> (string \<Rightarrow> string option) \<Rightarrow> string option \<Rightarrow> string
   \<Rightarrow> serve_result" where
  "serve_video files guess_type range_header file_path =
     (case files file_path of
        None \<Rightarrow> SendError 404
      | Some content \<Rightarrow>
          (let content_type = content_type_of guess_type file_path
           in case range_header of
                None \<Rightarrow> Sent (serve_full content_type content)
              | Some h \<Rightarrow>
                  if h = [] then Sent (serve_full content_type content)
                  else (case parse_range h (int (length content)) of
                          Inl e \<Rightarrow> Raised e
                        | Inr (start, end) \<Rightarrow>
                            Sent (serve_partial content_type content start end))))"

subsection \<open>\<^verbatim>\<open>os.path\<close> (posixpath)\<close>

text \<open>\<^verbatim>\<open>s.rfind(c)\<close>: the index of the last \<open>c\<close> in \<open>s\<close>, or \<open>-1\<close>.\<close>

definition rfind :: "char \<Rightarrow> string \<Rightarrow> int" where
  "rfind c s =
     (if c \<in> set s then int (length s) - 1 - int (length (takeWhile (\<lambda>x. x \<noteq> c) (rev s)))
      else - 1)"

text \<open>\<^verbatim>\<open>os.path.basename(p)\<close>: what follows the last slash.\<close>

definition basename :: "string \<Rightarrow> string" where
  "basename p = drop (nat (rfind CHR ''/'' p + 1)) p"

text \<open>\<^verbatim>\<open>os.path.dirname(p)\<close>: what precedes the last slash, with trailing slashes
  removed unless it consists of slashes only.\<close>

definition dirname :: "string \<Rightarrow> string" where
  "dirname p =
     (let head = take (nat (rfind CHR ''/'' p + 1)) p
      in if head \<noteq> [] \<and> \<not> list_all (\<lambda>c. c = CHR ''/'') head
         then rev (dropWhile (\<lambda>c. c = CHR ''/'') (rev head))
         else head)"

text \<open>\<^verbatim>\<open>os.path.splitext(p)\<close>: split at the last dot, provided it comes after the last
  slash and some character between that slash and the dot is not a dot.\<close>

definition splitext :: "string \<Rightarrow> string \<times> string" where
  "splitext p =
     (let sepIndex = rfind CHR ''/'' p;
          dotIndex = rfind CHR ''.'' p
      in if dotIndex > sepIndex
            \<and> \<not> list_all (\<lambda>c. c = CHR ''.'')
                  (take (nat (dotIndex - (sepIndex + 1))) (drop (nat (sepIndex + 1)) p))
         then (take (nat dotIndex) p, drop (nat dotIndex) p)
         else (p, []))"

text \<open>\<^verbatim>\<open>os.path.join(a, b)\<close>.\<close>

definition path_join :: "string \<Rightarrow> string \<Rightarrow> string" where
  "path_join a b =
     (if b \<noteq> [] \<and> hd b = CHR ''/'' then b
      else if a = [] \<or> last a = CHR ''/'' then a @ b
      else a @ CHR ''/'' # b)"

subsection \<open>Python numbers: \<^verbatim>\<open>int\<close> and \<^verbatim>\<open>float\<close>\<close>

text \<open>
  A \<^verbatim>\<open>float\<close> is an IEEE 754 binary64 value: a sign bit and a magnitude that is a
  rational number representable in the format, an infinity, or NaN. Arithmetic
  computes the exact rational result and rounds it to the nearest representable
  value, ties to even.
\<close>

datatype pyfloat =
    Finite bool rat
  | Infinite bool
  | NaN

datatype pynum =
    PyInt int
  | PyFloat pyfloat

definition signed :: "bool \<Rightarrow> rat \<Rightarrow> rat" where
  "signed neg m = (if neg then - m else m)"

definition round_half_even :: "rat \<Rightarrow> int" where
  "round_half_even q =
     (let f = \<lfloor>q\<rfloor>; r = q - of_int f
      in if r < 1 / 2 then f
         else if 1 / 2 < r then f + 1
         else if even f then f else f + 1)"

definition pow2 :: "int \<Rightarrow> rat" where
  "pow2 e = (if 0 \<le> e then 2 ^ nat e else 1 / 2 ^ nat (- e))"

text \<open>\<open>\<lfloor>log\<^sub>2 m\<rfloor>\<close> for a positive rational \<open>m\<close>.\<close>

definition ilog2 :: "rat \<Rightarrow> int" where
  "ilog2 m =
     (let e = bitlen (fst (quotient_of m)) - bitlen (snd (quotient_of m))
      in if pow2 e \<le> m then e else e - 1)"

text \<open>Rounding a magnitude to binary64 (53 significant bits, least exponent \<open>-1022\<close>);
  \<open>None\<close> when the rounded value is \<open>2 ^ 1024\<close> or more, which the format cannot hold.\<close>

definition round_binary64 :: "rat \<Rightarrow> rat option" where
  "round_binary64 m =
     (if m = 0 then Some 0
      else let e = max (ilog2 m) (- 1022);
               q = pow2 (e - 52);
               r = of_int (round_half_even (m / q)) * q
           in if pow2 1024 \<le> r then None else Some r)"

definition float_of_rat :: "rat \<Rightarrow> pyfloat" where
  "float_of_rat v =
     (case round_binary64 \<bar>v\<bar> of
        None \<Rightarrow> Infinite (v < 0)
      | Some r \<Rightarrow> Finite (v < 0) r)"

text \<open>\<^verbatim>\<open>x - y\<close> on floats. An exact zero difference is \<open>+0.0\<close>, except \<open>(-0.0) - (+0.0)\<close>.\<close>

fun float_sub :: "pyfloat \<Rightarrow> pyfloat \<Rightarrow> pyfloat" where
  "float_sub NaN y = NaN"
| "float_sub (Infinite s) NaN = NaN"
| "float_sub (Finite s a) NaN = NaN"
| "float_sub (Infinite s) (Infinite t) = (if s = t then NaN else Infinite s)"
| "float_sub (Infinite s) (Finite t b) = Infinite s"
| "float_sub (Finite s a) (Infinite t) = Infinite (\<not> t)"
| "float_sub (Finite s a) (Finite t b) =
     (if signed s a - signed t b = 0 then Finite (s \<and> \<not> t) 0
      else float_of_rat (signed s a - signed t b))"

text \<open>The conversion of an \<^verbatim>\<open>int\<close> to \<^verbatim>\<open>float\<close>, raising \<^verbatim>\<open>OverflowError\<close> where the
  rounded value is out of range.\<close>

definition int_to_float :: "int \<Rightarrow> py_exception + pyfloat" where
  "int_to_float n =
     (case round_binary64 (of_int \<bar>n\<bar>) of
        None \<Rightarrow> Inl OverflowError
      | Some r \<Rightarrow> Inr (Finite (n < 0) r))"

text \<open>\<^verbatim>\<open>a - b\<close> on numbers: exact on two ints; an int meeting a float is converted first.\<close>

fun num_sub :: "pynum \<Rightarrow> pynum \<Rightarrow> py_exception + pynum" where
  "num_sub (PyInt a) (PyInt b) = Inr (PyInt (a - b))"
| "num_sub (PyInt a) (PyFloat y) =
     (case int_to_float a of
        Inl e \<Rightarrow> Inl e
      | Inr x \<Rightarrow> Inr (PyFloat (float_sub x y)))"
| "num_sub (PyFloat x) (PyInt b) =
     (case int_to_float b of
        Inl e \<Rightarrow> Inl e
      | Inr y \<Rightarrow> Inr (PyFloat (float_sub x y)))"
| "num_sub (PyFloat x) (PyFloat y) = Inr (PyFloat (float_sub x y))"

text \<open>
  \<^verbatim>\<open>f"{x:.4f}"\<close>: the value rounded to four decimals (correctly, ties to even on the
  exact binary value), the sign of the float kept even where the digits are all zero.
\<close>

fun format_4f :: "pyfloat \<Rightarrow> string" where
  "format_4f NaN = ''nan''"
| "format_4f (Infinite s) = (if s then ''-inf'' else ''inf'')"
| "format_4f (Finite s m) =
     (if s then ''-'' else [])
       @ str_nat (nat (round_half_even (m * 10000)) div 10000)
       @ ''.''
       @ zero_pad 4 (nat (round_half_even (m * 10000)) mod 10000)"

fun num_format_4f :: "pynum \<Rightarrow> py_exception + string" where
  "num_format_4f (PyInt n) =
     (case int_to_float n of
        Inl e \<Rightarrow> Inl e
      | Inr x \<Rightarrow> Inr (format_4f x))"
| "num_format_4f (PyFloat x) = Inr (format_4f x)"

text \<open>Python's \<^verbatim>\<open>a <= b\<close> on numbers (exact, false whenever a NaN is involved). The
  handler never compares the two ends of a range; the relation is here to speak about
  ranges whose end does not come after their start.\<close>

fun float_le :: "pyfloat \<Rightarrow> pyfloat \<Rightarrow> bool" where
  "float_le NaN y = False"
| "float_le (Infinite s) NaN = False"
| "float_le (Finite s a) NaN = False"
| "float_le (Infinite s) (Infinite t) = (s \<or> \<not> t)"
| "float_le (Infinite s) (Finite t b) = s"
| "float_le (Finite s a) (Infinite t) = (\<not> t)"
| "float_le (Finite s a) (Finite t b) = (signed s a \<le> signed t b)"

fun num_le :: "pynum \<Rightarrow> pynum \<Rightarrow> bool" where
  "num_le (PyInt a) (PyInt b) = (a \<le> b)"
| "num_le (PyInt a) (PyFloat y) = float_le (Finite (a < 0) (of_int \<bar>a\<bar>)) y"
| "num_le (PyFloat x) (PyInt b) = float_le x (Finite (b < 0) (of_int \<bar>b\<bar>))"
| "num_le (PyFloat x) (PyFloat y) = float_le x y"

subsection \<open>The export handler: \<^verbatim>\<open>_handle_export\<close>\<close>

text \<open>
  The request, as the handler reads it from the JSON body: \<^verbatim>\<open>data["source"]\<close>,
  \<^verbatim>\<open>data["segments"]\<close> (each with a number under \<^verbatim>\<open>"in"\<close> and under \<^verbatim>\<open>"out"\<close>),
  \<^verbatim>\<open>data.get("output_dir", os.path.dirname(source))\<close> and
  \<^verbatim>\<open>data.get("vflip", False)\<close>.
\<close>

record segment =
  seg_in :: pynum
  seg_out :: pynum

record export_request =
  source :: string
  segments :: "segment list"
  output_dir :: "string option"
  vflip :: bool

text \<open>
  What \<^verbatim>\<open>subprocess.run(cmd, capture_output=True, text=True, timeout=600)\<close> does:
  the process ends with a return code and its standard error text, or the call raises
  (\<^verbatim>\<open>TimeoutExpired\<close> after 600 seconds, \<^verbatim>\<open>OSError\<close> when the program cannot be
  started).
\<close>

datatype proc_outcome =
    Completed int string
  | RunRaises py_exception

text \<open>
  The world the handler runs in, as far as it can observe it:
  the paths for which \<^verbatim>\<open>os.path.exists\<close> holds when the output name is chosen;
  what \<^verbatim>\<open>tempfile.mkdtemp()\<close> does; the outcome of the \<open>n\<close>-th call of
  \<^verbatim>\<open>subprocess.run\<close> the handler makes (counted from 0); whether writing the
  concatenation manifest raises; and what \<^verbatim>\<open>os.path.getsize\<close> gives at the end.
\<close>

record environment =
  existing :: "string list"
  mkdtemp :: "py_exception + string"
  run_outcome :: "nat \<Rightarrow> proc_outcome"
  write_manifest :: "py_exception option"
  getsize :: "string \<Rightarrow> py_exception + nat"

text \<open>
  What the handler has done to the world: the commands it has passed to
  \<^verbatim>\<open>subprocess.run\<close>, in order; the temporary directories it has created and not
  removed; the files it has written itself (path and text).
  \<^verbatim>\<open>shutil.rmtree(temp_dir, ignore_errors=True)\<close> is taken to remove the directory.
\<close>

record effects =
  run_calls :: "string list list"
  temp_dirs :: "string list"
  files_written :: "(string \<times> string) list"

definition no_effects :: effects where
  "no_effects = \<lparr> run_calls = [], temp_dirs = [], files_written = [] \<rparr>"

text \<open>
  The JSON answers of the handler, each with its HTTP status. The fixed texts of the
  source are constructors here: \<open>NoSegments\<close> is the text sent with status 400 for an
  empty list; \<open>FfmpegError\<close>, \<open>SegmentError\<close> and \<open>ConcatError\<close> are the three error
  texts of the single invocation, of a segment of the loop and of the concatenation;
  \<open>TimedOut\<close> is the text of the timeout handler, \<open>ExceptionText\<close> is \<^verbatim>\<open>str(e)\<close> of any
  other exception caught. Their arguments are the parts the source formats into them:
  \<^verbatim>\<open>result.stderr[-300:]\<close> and the segment number \<^verbatim>\<open>i+1\<close>; on success the output
  path and the byte size that \<^verbatim>\<open>_format_size\<close> renders. Sending an answer is taken to
  succeed.
\<close>

datatype export_message =
    NoSegments
  | FfmpegError string
  | SegmentError nat string
  | ConcatError string
  | TimedOut
  | ExceptionText py_exception
  | Success string nat

type_synonym export_response = "nat \<times> export_message"

text \<open>How a block of the handler ends: it has sent an answer and returned, it has raised,
  or it falls through to the next statement.\<close>

datatype 'a flow =
    Return export_response
  | Raise py_exception
  | Continue 'a

text \<open>
  The collision loop:
  \<^verbatim>\<open>counter = 1; while os.path.exists(output_path): output_name =
  f"{base}_cut_{counter}{ext}"; output_path = os.path.join(output_dir, output_name);
  counter += 1\<close>.
\<close>

definition numbered_path :: "string \<Rightarrow> string \<Rightarrow> string \<Rightarrow> nat \<Rightarrow> string" where
  "numbered_path out_dir base ext counter =
     path_join out_dir (base @ ''_cut_'' @ str_nat counter @ ext)"

function find_free :: "string list \<Rightarrow> string \<Rightarrow> string \<Rightarrow> string \<Rightarrow> nat \<Rightarrow> string \<Rightarrow> string" where
  "find_free paths out_dir base ext counter output_path =
     (if output_path \<in> set paths
      then find_free paths out_dir base ext (counter + 1)
             (numbered_path out_dir base ext counter)
      else output_path)"
  by pat_completeness auto

definition choose_output_path :: "string list \<Rightarrow> string \<Rightarrow> string \<Rightarrow> string" where
  "choose_output_path paths src out_dir =
     (let (base, ext) = splitext (basename src)
      in find_free paths out_dir base ext 1 (path_join out_dir (base @ ''_cut'' @ ext)))"

text \<open>\<^verbatim>\<open>_codec_args()\<close>, and the same two lists written out in the multi-segment loop.\<close>

definition codec_args :: "bool \<Rightarrow> string list" where
  "codec_args flip =
     (if flip
      then [''-vf'', ''vflip'', ''-c:v'', ''libx264'', ''-preset'', ''medium'',
            ''-crf'', ''18'', ''-c:a'', ''copy'']
      else [''-c'', ''copy''])"

text \<open>
  The command of one segment. \<^verbatim>\<open>duration = seg["out"] - seg["in"]\<close> comes first, then
  the two \<^verbatim>\<open>.4f\<close> formats; each can raise on an int too large for a float. \<open>tail\<close> is
  what follows the codec arguments: the output path in the single-segment branch,
  and \<^verbatim>\<open>-f mpegts\<close> before the temporary file in the multi-segment loop.
\<close>

definition segment_cmd ::
  "string \<Rightarrow> segment \<Rightarrow> bool \<Rightarrow> string list \<Rightarrow> py_exception + string list" where
  "segment_cmd src seg flip tail =
     (case num_sub (seg_out seg) (seg_in seg) of
        Inl e \<Rightarrow> Inl e
      | Inr duration \<Rightarrow>
          (case num_format_4f (seg_in seg) of
             Inl e \<Rightarrow> Inl e
           | Inr ss \<Rightarrow>
               (case num_format_4f duration of
                  Inl e \<Rightarrow> Inl e
                | Inr t \<Rightarrow>
                    Inr ([''ffmpeg'', ''-y'', ''-ss'', ss, ''-i'', src, ''-t'', t]
                           @ codec_args flip
                           @ [''-avoid_negative_ts'', ''make_zero'']
                           @ tail))))"

text \<open>\<^verbatim>\<open>subprocess.run(cmd, ...)\<close>: the call is recorded, its outcome is the world's.\<close>

definition subprocess_run :: "environment \<Rightarrow> string list \<Rightarrow> effects \<Rightarrow> proc_outcome \<times> effects" where
  "subprocess_run env cmd w =
     (run_outcome env (length (run_calls w)), w\<lparr> run_calls := run_calls w @ [cmd] \<rparr>)"

definition rmtree :: "string \<Rightarrow> effects \<Rightarrow> effects" where
  "rmtree d w = w\<lparr> temp_dirs := removeAll d (temp_dirs w) \<rparr>"

text \<open>The single-segment branch.\<close>

definition export_single ::
  "environment \<Rightarrow> string \<Rightarrow> bool \<Rightarrow> segment \<Rightarrow> string \<Rightarrow> effects \<Rightarrow> unit flow \<times> effects" where
  "export_single env src flip seg output_path w =
     (case segment_cmd src seg flip [output_path] of
        Inl e \<Rightarrow> (Raise e, w)
      | Inr cmd \<Rightarrow>
          (case subprocess_run env cmd w of
             (RunRaises e, w1) \<Rightarrow> (Raise e, w1)
           | (Completed returncode stderr, w1) \<Rightarrow>
               if returncode \<noteq> 0
               then (Return (500, FfmpegError (tail_chars 300 stderr)), w1)
               else (Continue (), w1)))"

text \<open>
  The loop \<^verbatim>\<open>for i, seg in enumerate(segments)\<close> of the multi-segment branch, from
  index \<open>i\<close> on; \<open>temp_files\<close> are the intermediate files named so far.
\<close>

fun segment_loop ::
  "environment \<Rightarrow> string \<Rightarrow> bool \<Rightarrow> string \<Rightarrow> nat \<Rightarrow> segment list \<Rightarrow> string list \<Rightarrow> effects
   \<Rightarrow> string list flow \<times> effects" where
  "segment_loop env src flip temp_dir i [] temp_files w = (Continue temp_files, w)"
| "segment_loop env src flip temp_dir i (seg # segs) temp_files w =
     (let temp_file = path_join temp_dir (''seg_'' @ zero_pad 4 i @ ''.ts'')
      in case segment_cmd src seg flip [''-f'', ''mpegts'', temp_file] of
           Inl e \<Rightarrow> (Raise e, w)
         | Inr cmd \<Rightarrow>
             (case subprocess_run env cmd w of
                (RunRaises e, w1) \<Rightarrow> (Raise e, w1)
              | (Completed returncode stderr, w1) \<Rightarrow>
                  if returncode \<noteq> 0
                  then (Return (500, SegmentError (i + 1) (tail_chars 300 stderr)),
                        rmtree temp_dir w1)
                  else segment_loop env src flip temp_dir (i + 1) segs
                         (temp_files @ [temp_file]) w1))"

text \<open>The manifest: \<^verbatim>\<open>for tf in temp_files: f.write(f"file '{tf}'\n")\<close>.\<close>

definition manifest_text :: "string list \<Rightarrow> string" where
  "manifest_text temp_files =
     concat (map (\<lambda>tf. ''file '' @ [CHR 0x27] @ tf @ [CHR 0x27, CHR 0x0A]) temp_files)"

definition concat_cmd :: "string \<Rightarrow> string \<Rightarrow> string list" where
  "concat_cmd concat_list output_path =
     [''ffmpeg'', ''-y'', ''-f'', ''concat'', ''-safe'', ''0'', ''-i'', concat_list,
      ''-c'', ''copy'', output_path]"

text \<open>The multi-segment branch.\<close>

definition export_multi ::
  "environment \<Rightarrow> string \<Rightarrow> bool \<Rightarrow> segment list \<Rightarrow> string \<Rightarrow> effects \<Rightarrow> unit flow \<times> effects" where
  "export_multi env src flip segs output_path w =
     (case mkdtemp env of
        Inl e \<Rightarrow> (Raise e, w)
      | Inr temp_dir \<Rightarrow>
          (case segment_loop env src flip temp_dir 0 segs []
                  (w\<lparr> temp_dirs := temp_dirs w @ [temp_dir] \<rparr>) of
             (Return r, w1) \<Rightarrow> (Return r, w1)
           | (Raise e, w1) \<Rightarrow> (Raise e, w1)
           | (Continue temp_files, w1) \<Rightarrow>
               (let concat_list = path_join temp_dir ''concat.txt''
                in case write_manifest env of
                     Some e \<Rightarrow> (Raise e, w1)
                   | None \<Rightarrow>
                       (case subprocess_run env (concat_cmd concat_list output_path)
                               (w1\<lparr> files_written :=
                                      files_written w1 @ [(concat_list, manifest_text temp_files)] \<rparr>) of
                          (RunRaises e, w2) \<Rightarrow> (Raise e, w2)
                        | (Completed returncode stderr, w2) \<Rightarrow>
                            if returncode \<noteq> 0
                            then (Return (500, ConcatError (tail_chars 300 stderr)),
                                  rmtree temp_dir w2)
                            else (Continue (), rmtree temp_dir w2)))))"

text \<open>
  The body of the \<^verbatim>\<open>try\<close> statement: one of the two branches
  (\<^verbatim>\<open>if len(segments) == 1: ... else: ...\<close>), then
  \<^verbatim>\<open>os.path.getsize(output_path)\<close> and the success answer. It ends with an answer
  sent (\<open>Inr\<close>) or with an exception (\<open>Inl\<close>).
\<close>

definition export_branch ::
  "environment \<Rightarrow> export_request \<Rightarrow> string \<Rightarrow> effects \<Rightarrow> unit flow \<times> effects" where
  "export_branch env req output_path w =
     (if length (segments req) = 1
      then export_single env (source req) (vflip req) (hd (segments req)) output_path w
      else export_multi env (source req) (vflip req) (segments req) output_path w)"

definition export_try ::
  "environment \<Rightarrow> export_request \<Rightarrow> string \<Rightarrow> effects
   \<Rightarrow> (py_exception + export_response) \<times> effects" where
  "export_try env req output_path w =
     (case export_branch env req output_path w of
        (Return r, w1) \<Rightarrow> (Inr r, w1)
      | (Raise e, w1) \<Rightarrow> (Inl e, w1)
      | (Continue u, w1) \<Rightarrow>
          (case getsize env output_path of
             Inl e \<Rightarrow> (Inl e, w1)
           | Inr file_size \<Rightarrow> (Inr (200, Success output_path file_size), w1)))"

text \<open>
  \<^verbatim>\<open>output_dir = data.get("output_dir", os.path.dirname(source))\<close>, and the output
  path the collision loop settles on.
\<close>

definition requested_output_dir :: "export_request \<Rightarrow> string" where
  "requested_output_dir req =
     (case output_dir req of
        None \<Rightarrow> dirname (source req)
      | Some d \<Rightarrow> d)"

definition output_path_of :: "environment \<Rightarrow> export_request \<Rightarrow> string" where
  "output_path_of env req =
     choose_output_path (existing env) (source req) (requested_output_dir req)"

text \<open>The two handlers \<^verbatim>\<open>except subprocess.TimeoutExpired\<close> and
  \<^verbatim>\<open>except Exception as e\<close>, in this order.\<close>

definition except_response :: "py_exception \<Rightarrow> export_response" where
  "except_response e =
     (case e of
        TimeoutExpired \<Rightarrow> (500, TimedOut)
      | _ \<Rightarrow> (500, ExceptionText e))"

text \<open>
  The handler: the empty-list check, the output name, the \<^verbatim>\<open>try\<close> body and its
  exception handlers. It gives the answer it sends and what it has done to the world.
\<close>

definition handle_export :: "environment \<Rightarrow> export_request \<Rightarrow> export_response \<times> effects" where
  "handle_export env req =
     (if segments req = [] then ((400, NoSegments), no_effects)
      else
        (case export_try env req (output_path_of env req) no_effects of
           (Inr r, w) \<Rightarrow> (r, w)
         | (Inl e, w) \<Rightarrow> (except_response e, w)))"

subsection \<open>Example inputs\<close>

text \<open>A ten-byte file and a thousand-byte file (byte \<open>i\<close> holds \<open>i mod 256\<close>), and a
  MIME table that knows no type.\<close>

definition ten_bytes :: "byte list" where
  "ten_bytes = [0, 1, 2, 3, 4, 5, 6, 7, 8, 9]"

definition thousand_bytes :: "byte list" where
  "thousand_bytes = map of_nat [0..<1000]"

definition demo_files :: "string \<Rightarrow> byte list option" where
  "demo_files = [''/v/ten.mp4'' \<mapsto> ten_bytes, ''/v/thousand.mp4'' \<mapsto> thousand_bytes]"

definition no_guess :: "string \<Rightarrow> string option" where
  "no_guess = Map.empty"

text \<open>
  A world for the export handler: nothing exists yet in the output directory,
  \<^verbatim>\<open>mkdtemp\<close> gives \<^verbatim>\<open>/tmp/tmpx\<close>, every process ends with return code 0, the
  manifest can be written and the output file has 1024 bytes. Variations: the first
  process runs into the timeout; the second process fails with return code 1.
\<close>

definition demo_env :: environment where
  "demo_env =
     \<lparr> existing = [],
       mkdtemp = Inr ''/tmp/tmpx'',
       run_outcome = (\<lambda>n. Completed 0 []),
       write_manifest = None,
       getsize = (\<lambda>p. Inr 1024) \<rparr>"

definition timeout_env :: environment where
  "timeout_env = demo_env\<lparr> run_outcome := (\<lambda>n. RunRaises TimeoutExpired) \<rparr>"

definition second_fails_env :: environment where
  "second_fails_env =
     demo_env\<lparr> run_outcome := (\<lambda>n. if n = 1 then Completed 1 ''boom'' else Completed 0 []) \<rparr>"

text \<open>A range between two float values given as whole seconds, and a request on
  \<^verbatim>\<open>/v/video.mp4\<close> with the output directory \<^verbatim>\<open>/v\<close>.\<close>

definition float_range :: "nat \<Rightarrow> nat \<Rightarrow> segment" where
  "float_range a b =
     \<lparr> seg_in = PyFloat (Finite False (of_nat a)), seg_out = PyFloat (Finite False (of_nat b)) \<rparr>"

definition demo_request :: "segment list \<Rightarrow> bool \<Rightarrow> export_request" where
  "demo_request segs flip =
     \<lparr> source = ''/v/video.mp4'', segments = segs, output_dir = Some ''/v'', vflip = flip \<rparr>"

text \<open>A range between two ints, as \<^verbatim>\<open>json.loads\<close> gives them for whole seconds.\<close>

definition int_range :: "int \<Rightarrow> int \<Rightarrow> segment" where
  "int_range a b = \<lparr> seg_in = PyInt a, seg_out = PyInt b \<rparr>"

subsection \<open>The naming scheme of the output file\<close>

text \<open>
  The names of the file-naming contract, numbered: number 0 is
  \<^verbatim>\<open><stem>_cut<ext>\<close> in the output directory, number \<open>n > 0\<close> is
  \<^verbatim>\<open><stem>_cut_<n><ext>\<close>.
\<close>

definition candidate_path :: "string \<Rightarrow> string \<Rightarrow> string \<Rightarrow> nat \<Rightarrow> string" where
  "candidate_path out_dir base ext n =
     (if n = 0 then path_join out_dir (base @ ''_cut'' @ ext)
      else numbered_path out_dir base ext n)"

subsection \<open>Text with four decimal places\<close>

text \<open>
  What "formatted to exactly 4 decimal places" asks of a string: an optional minus
  sign, one digit or more, a point, and exactly four digits. \<open>decimal_magnitude\<close> is
  the number such a string denotes, its sign left aside. \<open>is_finite\<close> holds of the
  numbers that are seconds: ints and finite floats.
\<close>

fun is_finite :: "pynum \<Rightarrow> bool" where
  "is_finite (PyInt n) = True"
| "is_finite (PyFloat (Finite s m)) = True"
| "is_finite (PyFloat (Infinite s)) = False"
| "is_finite (PyFloat NaN) = False"

definition unsigned_part :: "string \<Rightarrow> string" where
  "unsigned_part s = (if s \<noteq> [] \<and> hd s = CHR ''-'' then tl s else s)"

definition four_decimals :: "string \<Rightarrow> bool" where
  "four_decimals s =
     (let body = unsigned_part s;
          int_part = takeWhile is_digit body;
          rest = dropWhile is_digit body
      in int_part \<noteq> [] \<and> length rest = 5 \<and> hd rest = CHR ''.''
         \<and> list_all is_digit (tl rest))"

definition decimal_magnitude :: "string \<Rightarrow> rat" where
  "decimal_magnitude s =
     (let body = unsigned_part s
      in of_nat (nat_of_digits (takeWhile is_digit body))
         + of_nat (nat_of_digits (tl (dropWhile is_digit body))) / 10000)"

text \<open>
  The number a time value stands for, and the number a four-decimal text denotes, sign
  included. \<open>well_formed\<close> is the invariant of the float representation: the magnitude
  is not negative. \<open>conversion_slack\<close> is how far the conversion of an int to a float
  can be off: nothing below \<open>2 ^ 53\<close>, where every int is a float, and at most the
  relative error \<open>2 ^ -53\<close> of rounding to 53 bits beyond.
\<close>

fun num_value :: "pynum \<Rightarrow> rat" where
  "num_value (PyInt n) = of_int n"
| "num_value (PyFloat (Finite s m)) = signed s m"
| "num_value (PyFloat (Infinite s)) = 0"
| "num_value (PyFloat NaN) = 0"

definition text_value :: "string \<Rightarrow> rat" where
  "text_value s =
     (if s \<noteq> [] \<and> hd s = CHR ''-'' then - decimal_magnitude s else decimal_magnitude s)"

fun well_formed :: "pynum \<Rightarrow> bool" where
  "well_formed (PyInt n) = True"
| "well_formed (PyFloat (Finite s m)) = (0 \<le> m)"
| "well_formed (PyFloat (Infinite s)) = True"
| "well_formed (PyFloat NaN) = True"

fun conversion_slack :: "pynum \<Rightarrow> rat" where
  "conversion_slack (PyInt n) = (if \<bar>n\<bar> < 2 ^ 53 then 0 else \<bar>of_int n\<bar> / 2 ^ 53)"
| "conversion_slack (PyFloat x) = 0"

section \<open>Properties of the library model\<close>

subsection \<open>The two send loops\<close>

lemma send_range_eq: "send_range content pos remaining = take (nat remaining) (drop pos content)"
proof (induction content pos remaining rule: send_range.induct)
  case (1 content pos remaining)
  show ?case
  proof (cases "remaining > 0")
    case False
    then show ?thesis by (simp add: send_range.simps)
  next
    case True
    define n where "n = nat (min 65536 remaining)"
    define chunk where "chunk = file_read content pos n"
    show ?thesis
    proof (cases "chunk = []")
      case True
      with \<open>remaining > 0\<close> have "drop pos content = []"
        by (auto simp: chunk_def n_def file_read_def)
      with True \<open>remaining > 0\<close> show ?thesis
        by (subst send_range.simps) (simp add: chunk_def n_def)
    next
      case False
      have IH: "send_range content (pos + length chunk) (remaining - int (length chunk))
                 = take (nat (remaining - int (length chunk))) (drop (pos + length chunk) content)"
        using "1.IH" True False unfolding chunk_def n_def by simp
      have len: "length chunk \<le> nat remaining"
        by (simp add: chunk_def file_read_def n_def)
      have rem: "nat (remaining - int (length chunk)) = nat remaining - length chunk"
        using True by arith
      have ch: "chunk = take (length chunk) (drop pos content)"
        by (simp add: chunk_def file_read_def min_def)
      have "send_range content pos remaining
              = chunk @ send_range content (pos + length chunk) (remaining - int (length chunk))"
        using True False by (subst send_range.simps) (simp add: chunk_def n_def)
      also have "\<dots> = take (length chunk) (drop pos content)
                      @ take (nat remaining - length chunk) (drop (length chunk) (drop pos content))"
        using ch IH rem by (simp add: add.commute)
      also have "\<dots> = take (length chunk + (nat remaining - length chunk)) (drop pos content)"
        by (simp only: take_add)
      also have "\<dots> = take (nat remaining) (drop pos content)"
        using len by simp
      finally show ?thesis .
    qed
  qed
qed

lemma send_all_eq: "send_all content pos = drop pos content"
proof (induction content pos rule: send_all.induct)
  case (1 content pos)
  show ?case
  proof (cases "file_read content pos 65536 = []")
    case True
    then show ?thesis by (subst send_all.simps) (simp add: file_read_def)
  next
    case False
    with "1.IH" have "send_all content pos
        = take 65536 (drop pos content)
          @ drop (pos + length (take 65536 (drop pos content))) content"
      by (subst send_all.simps) (simp add: file_read_def)
    also have "\<dots> = take 65536 (drop pos content) @ drop 65536 (drop pos content)"
      by (cases "65536 \<le> length content - pos") (simp_all add: min_def add.commute)
    also have "\<dots> = drop pos content"
      by (rule append_take_drop_id)
    finally show ?thesis .
  qed
qed

subsection \<open>Parsing the \<^verbatim>\<open>Range\<close> header\<close>

lemma py_replace_bytes_prefix:
  "py_replace ''bytes='' [] (''bytes='' @ s) = py_replace ''bytes='' [] s"
  by simp

lemma py_replace_bytes_absent:
  "CHR ''b'' \<notin> set s \<Longrightarrow> py_replace ''bytes='' [] s = s"
  by (induction s) auto

lemma py_split_nonempty: "py_split sep s \<noteq> []"
  by (induction s) (auto split: list.splits)


lemma py_split_append: "sep \<notin> set a \<Longrightarrow> py_split sep (a @ sep # b) = a # py_split sep b"
  by (induction a) auto

lemma py_split_pieces: "w \<in> set (py_split sep s) \<Longrightarrow> sep \<notin> set w"
  by (induction s arbitrary: w) (auto split: if_splits list.splits)

lemma is_digit_not_space: "is_digit c \<Longrightarrow> \<not> is_space c"
  by (auto simp: is_digit_def is_space_def)

lemma py_strip_digits:
  assumes "list_all is_digit ds"
  shows "py_strip ds = ds"
proof -
  have "dropWhile is_space xs = xs" if "list_all is_digit xs" for xs
    using that by (cases xs) (auto simp: is_digit_not_space)
  from this[of ds] this[of "rev ds"] assms show ?thesis
    by (simp add: py_strip_def)
qed

lemma set_py_strip: "set (py_strip s) \<subseteq> set s"
proof -
  have "set (dropWhile is_space (rev (dropWhile is_space s)))
          \<subseteq> set (rev (dropWhile is_space s))"
    by (auto dest: set_dropWhileD)
  also have "\<dots> \<subseteq> set s" by (auto dest: set_dropWhileD)
  finally show ?thesis by (simp add: py_strip_def)
qed

lemma digits_of_digits:
  "ds \<noteq> [] \<Longrightarrow> list_all is_digit ds \<Longrightarrow> digits_of ds = Some ds"
proof (induction ds rule: digits_of.induct)
  case (3 c d cs)
  then have "d \<noteq> CHR ''_''" by (auto simp: is_digit_def)
  with 3 show ?case by simp
qed simp_all

lemma py_int_digits:
  assumes "ds \<noteq> []" "list_all is_digit ds" "length ds \<le> int_max_str_digits"
  shows "py_int ds = Inr (int (nat_of_digits ds))"
proof -
  from assms obtain c cs where ds: "ds = c # cs" by (cases ds) auto
  with assms have "is_digit c" by simp
  then have c: "c \<noteq> CHR ''-''" "c \<noteq> CHR ''+''" by (auto simp: is_digit_def)
  have strip: "py_strip ds = ds" using assms(2) by (rule py_strip_digits)
  have dig: "digits_of ds = Some ds" using assms(1,2) by (rule digits_of_digits)
  have "(case ds of [] \<Rightarrow> (False, ds)
          | c # cs \<Rightarrow> if c = CHR ''-'' then (True, cs)
                     else if c = CHR ''+'' then (False, cs) else (False, ds)) = (False, ds)"
    using c by (simp add: ds)
  then show ?thesis
    using assms(3) by (simp add: py_int_def strip dig)
qed

lemma py_int_nonneg:
  assumes "py_int s = Inr v" "CHR ''-'' \<notin> set s"
  shows "0 \<le> v"
proof -
  from assms(2) set_py_strip[of s] have "CHR ''-'' \<notin> set (py_strip s)" by auto
  with assms(1) show ?thesis
    by (auto simp: py_int_def Let_def split: list.splits if_splits option.splits)
qed

lemma parse_range_start_nonneg:
  assumes "parse_range h fs = Inr (s, e)"
  shows "0 \<le> s"
proof -
  define ranges where "ranges = py_split CHR ''-'' (py_replace ''bytes='' [] h)"
  have "ranges \<noteq> []" by (simp add: ranges_def py_split_nonempty)
  then have "hd ranges \<in> set ranges" by simp
  then have nm: "CHR ''-'' \<notin> set (hd ranges)" unfolding ranges_def by (rule py_split_pieces)
  from assms have "(if hd ranges \<noteq> [] then py_int (hd ranges) else Inr 0) = Inr s"
    by (auto simp: parse_range_def Let_def ranges_def split: sum.splits list.splits if_splits)
  with nm show ?thesis by (auto split: if_splits dest: py_int_nonneg)
qed

lemma parse_range_header_nonempty: "parse_range h fs = Inr (s, e) \<Longrightarrow> h \<noteq> []"
  by (auto simp: parse_range_def)

lemma digits_no_special:
  assumes "list_all is_digit ds"
  shows "CHR ''-'' \<notin> set ds" "CHR ''b'' \<notin> set ds"
  using assms by (auto simp: list_all_iff is_digit_def)


lemma parse_range_open_end:
  assumes "ds \<noteq> []" "list_all is_digit ds" "length ds \<le> int_max_str_digits"
  shows "parse_range (''bytes='' @ ds @ ''-'') fs = Inr (int (nat_of_digits ds), fs - 1)"
proof -
  have "py_replace ''bytes='' [] (''bytes='' @ ds @ ''-'') = ds @ ''-''"
    using py_replace_bytes_prefix[of "ds @ ''-''"] py_replace_bytes_absent[of "ds @ ''-''"]
      digits_no_special[OF assms(2)] by simp
  moreover have "py_split CHR ''-'' (ds @ ''-'') = [ds, []]"
    using py_split_append[of "CHR ''-''" ds "[]"] digits_no_special[OF assms(2)] by simp
  ultimately show ?thesis
    using assms by (simp add: parse_range_def py_int_digits)
qed

subsection \<open>Decimal text\<close>

lemma digit_val_digit_char: "d < 10 \<Longrightarrow> digit_val (digit_char d) = d"
  by (simp add: digit_val_def digit_char_def)

lemma is_digit_digit_char: "d < 10 \<Longrightarrow> is_digit (digit_char d)"
  by (simp add: is_digit_def digit_char_def)

lemma nat_of_digits_snoc: "nat_of_digits (ds @ [c]) = 10 * nat_of_digits ds + digit_val c"
  by (simp add: nat_of_digits_def)

lemma nat_of_digits_str_nat: "nat_of_digits (str_nat n) = n"
proof (induction n rule: str_nat.induct)
  case (1 n)
  show ?case
  proof (cases "n < 10")
    case True
    then show ?thesis
      by (subst str_nat.simps) (simp add: nat_of_digits_def digit_val_digit_char)
  next
    case False
    with 1 have "nat_of_digits (str_nat (n div 10)) = n div 10" by simp
    with False show ?thesis
      by (subst str_nat.simps) (simp add: nat_of_digits_snoc digit_val_digit_char)
  qed
qed

lemma str_nat_inject: "str_nat m = str_nat n \<Longrightarrow> m = n"
  by (metis nat_of_digits_str_nat)

lemma str_nat_digits: "list_all is_digit (str_nat n)"
proof (induction n rule: str_nat.induct)
  case (1 n)
  show ?case
  proof (cases "n < 10")
    case True
    then show ?thesis by (subst str_nat.simps) (simp add: is_digit_digit_char)
  next
    case False
    with 1 have "list_all is_digit (str_nat (n div 10))" by simp
    with False show ?thesis by (subst str_nat.simps) (simp add: is_digit_digit_char)
  qed
qed

lemma str_nat_nonempty: "str_nat n \<noteq> []"
  by (subst str_nat.simps) simp

subsection \<open>The numbered output names\<close>

lemma path_join_prefix:
  "\<exists>pre. \<forall>x. path_join out_dir (base @ CHR ''_'' # x) = pre @ base @ CHR ''_'' # x"
proof (cases "base \<noteq> [] \<and> hd base = CHR ''/''")
  case True
  then have "\<forall>x. path_join out_dir (base @ CHR ''_'' # x) = [] @ base @ CHR ''_'' # x"
    by (simp add: path_join_def)
  then show ?thesis by blast
next
  case False
  then have nohd: "\<And>x. hd (base @ CHR ''_'' # x) \<noteq> CHR ''/''"
    by (cases base) auto
  show ?thesis
  proof (cases "out_dir = [] \<or> last out_dir = CHR ''/''")
    case True
    with nohd have "\<forall>x. path_join out_dir (base @ CHR ''_'' # x) = out_dir @ base @ CHR ''_'' # x"
      by (simp add: path_join_def)
    then show ?thesis by blast
  next
    case False
    with nohd have "\<forall>x. path_join out_dir (base @ CHR ''_'' # x)
                      = (out_dir @ ''/'') @ base @ CHR ''_'' # x"
      by (simp add: path_join_def)
    then show ?thesis by blast
  qed
qed

lemma numbered_path_inject:
  assumes "numbered_path out_dir base ext j = numbered_path out_dir base ext k"
  shows "j = k"
proof -
  obtain pre where pre: "\<And>x. path_join out_dir (base @ CHR ''_'' # x) = pre @ base @ CHR ''_'' # x"
    using path_join_prefix by blast
  from assms have "str_nat j @ ext = str_nat k @ ext"
    using pre[of "''cut_'' @ str_nat j @ ext"] pre[of "''cut_'' @ str_nat k @ ext"]
    by (simp add: numbered_path_def)
  then show ?thesis by (simp add: str_nat_inject)
qed

lemma finite_numbered_in: "finite {k. numbered_path out_dir base ext k \<in> set paths}"
proof -
  have "inj (numbered_path out_dir base ext)"
    by (rule injI) (rule numbered_path_inject)
  then have "finite (numbered_path out_dir base ext -` set paths)"
    by (intro finite_vimageI) simp_all
  then show ?thesis by (simp add: vimage_def)
qed

termination find_free
proof (relation "measure (\<lambda>(paths, out_dir, base, ext, counter, output_path).
          card {k. counter \<le> k \<and> numbered_path out_dir base ext k \<in> set paths}
          + (if output_path \<in> set paths then 1 else 0))")
  show "wf (measure (\<lambda>(paths, out_dir, base, ext, counter, output_path).
          card {k. counter \<le> k \<and> numbered_path out_dir base ext k \<in> set paths}
          + (if output_path \<in> set paths then 1 else 0)))"
    by (rule wf_measure)
next
  fix paths :: "string list" and out_dir base ext :: string and counter :: nat
    and output_path :: string
  assume inp: "output_path \<in> set paths"
  define P where "P k \<longleftrightarrow> numbered_path out_dir base ext k \<in> set paths" for k
  define S where "S = {k. counter \<le> k \<and> P k}"
  define T where "T = {k. counter + 1 \<le> k \<and> P k}"
  have "finite {k. P k}"
    unfolding P_def by (rule finite_numbered_in)
  then have fin: "finite S"
    by (rule rev_finite_subset) (simp add: S_def subset_iff)
  have TS: "T = S - {counter}"
  proof (rule set_eqI)
    fix x
    have "counter + 1 \<le> x \<longleftrightarrow> counter \<le> x \<and> x \<noteq> counter" by arith
    then show "x \<in> T \<longleftrightarrow> x \<in> S - {counter}"
      unfolding T_def S_def by blast
  qed
  have "card T + (if P counter then 1 else 0) = card S"
  proof (cases "P counter")
    case True
    then have "counter \<in> S" by (simp add: S_def)
    with fin have "card S = Suc (card (S - {counter}))" by (rule card.remove)
    with True TS show ?thesis by simp
  next
    case False
    then have "counter \<notin> S" by (simp add: S_def)
    then have "S - {counter} = S" by simp
    with False TS show ?thesis by simp
  qed
  then have "card T + (if P counter then 1 else 0) < card S + (if output_path \<in> set paths then 1 else 0)"
    using inp by simp
  then show "((paths, out_dir, base, ext, counter + 1, numbered_path out_dir base ext counter),
         (paths, out_dir, base, ext, counter, output_path))
        \<in> measure (\<lambda>(paths, out_dir, base, ext, counter, output_path).
          card {k. counter \<le> k \<and> numbered_path out_dir base ext k \<in> set paths}
          + (if output_path \<in> set paths then 1 else 0))"
    unfolding in_measure prod.case T_def S_def P_def .
qed

declare find_free.simps [simp del]

lemma find_free_numbered:
  assumes "output_path \<in> set paths"
  shows "\<exists>k\<ge>counter. find_free paths out_dir base ext counter output_path
                         = numbered_path out_dir base ext k
           \<and> numbered_path out_dir base ext k \<notin> set paths
           \<and> (\<forall>j. counter \<le> j \<and> j < k \<longrightarrow> numbered_path out_dir base ext j \<in> set paths)"
  using assms
proof (induction paths out_dir base ext counter output_path rule: find_free.induct)
  case (1 paths out_dir base ext counter output_path)
  let ?next = "numbered_path out_dir base ext counter"
  have step: "find_free paths out_dir base ext counter output_path
                = find_free paths out_dir base ext (counter + 1) ?next"
    using "1.prems" by (subst find_free.simps) simp
  show ?case
  proof (cases "?next \<in> set paths")
    case False
    then have "find_free paths out_dir base ext (counter + 1) ?next = ?next"
      by (subst find_free.simps) simp
    with step False show ?thesis by (intro exI[of _ counter]) auto
  next
    case True
    from "1.IH"[OF "1.prems" True] obtain k where k: "counter + 1 \<le> k"
      "find_free paths out_dir base ext (counter + 1) ?next = numbered_path out_dir base ext k"
      "numbered_path out_dir base ext k \<notin> set paths"
      "\<forall>j. counter + 1 \<le> j \<and> j < k \<longrightarrow> numbered_path out_dir base ext j \<in> set paths"
      by blast
    have "\<forall>j. counter \<le> j \<and> j < k \<longrightarrow> numbered_path out_dir base ext j \<in> set paths"
    proof (intro allI impI)
      fix j assume "counter \<le> j \<and> j < k"
      then show "numbered_path out_dir base ext j \<in> set paths"
        using k(4) True by (cases "j = counter") auto
    qed
    with k step show ?thesis by (intro exI[of _ k]) simp
  qed
qed

subsection \<open>Whole numbers as floats\<close>

lemma round_half_even_of_int: "round_half_even (of_int z) = z"
  by (simp add: round_half_even_def)

lemma round_half_even_close: "\<bar>of_int (round_half_even q) - q\<bar> \<le> 1 / 2"
proof -
  define f where "f = \<lfloor>q\<rfloor>"
  have b: "of_int f \<le> q" "q < of_int f + 1" unfolding f_def by linarith+
  have "round_half_even q
          = (if q - of_int f < 1 / 2 then f
             else if 1 / 2 < q - of_int f then f + 1
             else if even f then f else f + 1)"
    by (simp add: round_half_even_def Let_def f_def)
  with b show ?thesis by (auto simp: abs_if)
qed

lemma round_half_even_nonneg: "0 \<le> q \<Longrightarrow> 0 \<le> round_half_even q"
  by (auto simp: round_half_even_def Let_def)

lemma ilog2_of_nat:
  assumes "0 < n"
  shows "ilog2 (of_nat n) = bitlen (int n) - 1"
    and "0 \<le> bitlen (int n) - 1"
    and "(2::nat) ^ nat (bitlen (int n) - 1) \<le> n"
proof -
  from assms have pos: "0 < int n" by simp
  from bitlen_bounds[OF pos] have lo: "(2::int) ^ nat (bitlen (int n) - 1) \<le> int n" by simp
  from pos have "bitlen (int n) \<noteq> 0" by (simp add: bitlen_eq_zero_iff)
  with bitlen_nonneg[of "int n"] show nonneg: "0 \<le> bitlen (int n) - 1" by simp
  from lo show lo_nat: "(2::nat) ^ nat (bitlen (int n) - 1) \<le> n"
    by (metis of_nat_le_iff of_nat_numeral of_nat_power)
  have q: "quotient_of (of_nat n) = (int n, 1)"
    using quotient_of_int[of "int n"] by simp
  have b1: "bitlen 1 = 1" by (simp add: compute_bitlen)
  have "pow2 (bitlen (int n) - 1) \<le> of_nat n"
  proof -
    have "pow2 (bitlen (int n) - 1) = of_nat (2 ^ nat (bitlen (int n) - 1))"
      using nonneg by (simp add: pow2_def)
    also have "\<dots> \<le> of_nat n" using lo_nat by (simp only: of_nat_le_iff)
    finally show ?thesis .
  qed
  then show "ilog2 (of_nat n) = bitlen (int n) - 1"
    by (simp add: ilog2_def q b1 Let_def)
qed

lemma round_binary64_of_nat:
  assumes "n < 2 ^ 53"
  shows "round_binary64 (of_nat n) = Some (of_nat n)"
proof (cases "n = 0")
  case True
  then show ?thesis by (simp add: round_binary64_def)
next
  case False
  then have pos: "0 < n" by simp
  define e where "e = bitlen (int n) - 1"
  have il: "ilog2 (of_nat n) = e" and e0: "0 \<le> e" and lo: "(2::nat) ^ nat e \<le> n"
    using ilog2_of_nat[OF pos] by (simp_all add: e_def)
  have "\<not> 53 \<le> nat e"
  proof
    assume "53 \<le> nat e"
    then have "(2::nat) ^ 53 \<le> 2 ^ nat e" by (rule power_increasing) simp
    with lo assms show False by simp
  qed
  with e0 have e52: "e \<le> 52" by simp
  define d where "d = nat (52 - e)"
  have q: "pow2 (e - 52) = 1 / 2 ^ d"
  proof (cases "e = 52")
    case True
    then show ?thesis by (simp add: pow2_def d_def)
  next
    case False
    with e52 have "e - 52 < 0" by simp
    then show ?thesis by (simp add: pow2_def d_def)
  qed
  have m: "max e (- 1022) = e" using e0 by simp
  have quot: "(of_nat n :: rat) / (1 / 2 ^ d) = of_int (int n * 2 ^ d)" by simp
  have unscale: "of_int (int n * 2 ^ d) * (1 / 2 ^ d) = (of_nat n :: rat)" by simp
  have small: "\<not> pow2 1024 \<le> (of_nat n :: rat)"
  proof -
    have "(of_nat n :: rat) < of_nat (2 ^ 53)" using assms by (simp only: of_nat_less_iff)
    also have "\<dots> \<le> pow2 1024" by (simp add: pow2_def)
    finally show ?thesis by simp
  qed
  from False have nz: "(of_nat n :: rat) \<noteq> 0" by simp
  show ?thesis
    unfolding round_binary64_def il m q Let_def quot round_half_even_of_int unscale
    using nz small by simp
qed

lemma float_sub_whole:
  assumes "a < 2 ^ 53" and "b < 2 ^ 53"
  shows "float_sub (Finite False (of_nat b)) (Finite False (of_nat a))
           = (if a = b then Finite False 0
              else if a < b then Finite False (of_nat (b - a))
              else Finite True (of_nat (a - b)))"
proof -
  consider "a = b" | "a < b" | "b < a" by linarith
  then show ?thesis
  proof cases
    case 1
    then show ?thesis by (simp add: signed_def)
  next
    case 2
    then have d: "(of_nat b :: rat) - of_nat a = of_nat (b - a)" by (simp add: of_nat_diff)
    from 2 assms have "b - a < 2 ^ 53" by simp
    from round_binary64_of_nat[OF this] 2 show ?thesis
      by (simp add: signed_def d float_of_rat_def del: of_nat_diff)
  next
    case 3
    then have d: "(of_nat b :: rat) - of_nat a = - of_nat (a - b)" by (simp add: of_nat_diff)
    from 3 assms have "a - b < 2 ^ 53" by simp
    from round_binary64_of_nat[OF this] 3 show ?thesis
      by (simp add: signed_def d float_of_rat_def del: of_nat_diff)
  qed
qed

lemma zero_pad_4_zero: "zero_pad 4 0 = ''0000''"
  by code_simp

lemma format_4f_whole:
  "format_4f (Finite s (of_nat n)) = (if s then ''-'' else []) @ str_nat n @ ''.0000''"
proof -
  have "(of_nat n :: rat) * 10000 = of_int (int (n * 10000))" by simp
  then have "round_half_even (of_nat n * 10000) = int (n * 10000)"
    by (simp only: round_half_even_of_int)
  then have "nat (round_half_even (of_nat n * 10000)) = n * 10000"
    by (simp only: nat_int)
  then show ?thesis by (simp add: zero_pad_4_zero)
qed

subsection \<open>The segment loop\<close>

lemma run_calls_subprocess_run:
  "subprocess_run env cmd w = (out, w1) \<Longrightarrow>
     run_calls w1 = run_calls w @ [cmd] \<and> temp_dirs w1 = temp_dirs w
     \<and> files_written w1 = files_written w \<and> out = run_outcome env (length (run_calls w))"
  by (auto simp: subprocess_run_def)

lemma rmtree_fields:
  "run_calls (rmtree d w) = run_calls w"
  "files_written (rmtree d w) = files_written w"
  "temp_dirs (rmtree d w) = removeAll d (temp_dirs w)"
  by (simp_all add: rmtree_def)

text \<open>One round of the loop, case by case.\<close>

lemma segment_loop_Cons_cases:
  assumes "segment_loop env src flip temp_dir i (seg # segs) temp_files w = (fl, w')"
  obtains
    (build_raises) e where
      "segment_cmd src seg flip
         [''-f'', ''mpegts'', path_join temp_dir (''seg_'' @ zero_pad 4 i @ ''.ts'')] = Inl e"
      "fl = Raise e" "w' = w"
  | (run_raises) cmd e where
      "segment_cmd src seg flip
         [''-f'', ''mpegts'', path_join temp_dir (''seg_'' @ zero_pad 4 i @ ''.ts'')] = Inr cmd"
      "run_outcome env (length (run_calls w)) = RunRaises e"
      "fl = Raise e" "w' = w\<lparr> run_calls := run_calls w @ [cmd] \<rparr>"
  | (fails) cmd rc err where
      "segment_cmd src seg flip
         [''-f'', ''mpegts'', path_join temp_dir (''seg_'' @ zero_pad 4 i @ ''.ts'')] = Inr cmd"
      "run_outcome env (length (run_calls w)) = Completed rc err" "rc \<noteq> 0"
      "fl = Return (500, SegmentError (i + 1) (tail_chars 300 err))"
      "w' = rmtree temp_dir (w\<lparr> run_calls := run_calls w @ [cmd] \<rparr>)"
  | (goes_on) cmd err where
      "segment_cmd src seg flip
         [''-f'', ''mpegts'', path_join temp_dir (''seg_'' @ zero_pad 4 i @ ''.ts'')] = Inr cmd"
      "run_outcome env (length (run_calls w)) = Completed 0 err"
      "segment_loop env src flip temp_dir (i + 1) segs
         (temp_files @ [path_join temp_dir (''seg_'' @ zero_pad 4 i @ ''.ts'')])
         (w\<lparr> run_calls := run_calls w @ [cmd] \<rparr>) = (fl, w')"
  using assms
  by (auto simp: Let_def subprocess_run_def
      split: sum.splits proc_outcome.splits if_splits)

lemma segment_loop_calls:
  assumes "segment_loop env src flip temp_dir i segs temp_files w = (fl, w')"
  shows "\<exists>cs. run_calls w' = run_calls w @ cs \<and> length cs \<le> length segs
            \<and> (\<forall>j<length cs.
                  segment_cmd src (segs ! j) flip
                    [''-f'', ''mpegts'',
                     path_join temp_dir (''seg_'' @ zero_pad 4 (i + j) @ ''.ts'')]
                  = Inr (cs ! j))"
  using assms
proof (induction segs arbitrary: i temp_files w)
  case Nil
  then show ?case by simp
next
  case (Cons seg segs)
  from Cons.prems show ?case
  proof (cases rule: segment_loop_Cons_cases)
    case (build_raises e)
    then show ?thesis by simp
  next
    case (run_raises cmd e)
    then show ?thesis by (intro exI[of _ "[cmd]"]) simp
  next
    case (fails cmd rc err)
    then show ?thesis by (intro exI[of _ "[cmd]"]) (simp add: rmtree_fields)
  next
    case (goes_on cmd err)
    from Cons.IH[OF goes_on(3)] obtain cs where cs:
      "run_calls w' = (run_calls w @ [cmd]) @ cs" "length cs \<le> length segs"
      "\<forall>j<length cs.
          segment_cmd src (segs ! j) flip
            [''-f'', ''mpegts'',
             path_join temp_dir (''seg_'' @ zero_pad 4 (i + 1 + j) @ ''.ts'')]
          = Inr (cs ! j)"
      by auto
    have "\<forall>j<length (cmd # cs).
          segment_cmd src ((seg # segs) ! j) flip
            [''-f'', ''mpegts'',
             path_join temp_dir (''seg_'' @ zero_pad 4 (i + j) @ ''.ts'')]
          = Inr ((cmd # cs) ! j)"
    proof (intro allI impI)
      fix j assume "j < length (cmd # cs)"
      then show "segment_cmd src ((seg # segs) ! j) flip
            [''-f'', ''mpegts'',
             path_join temp_dir (''seg_'' @ zero_pad 4 (i + j) @ ''.ts'')]
          = Inr ((cmd # cs) ! j)"
        using goes_on(1) cs(3) by (cases j) auto
    qed
    with cs(1,2) show ?thesis by (intro exI[of _ "cmd # cs"]) simp
  qed
qed

lemma segment_loop_Continue:
  assumes "segment_loop env src flip temp_dir i segs temp_files w = (Continue tfs, w')"
  shows "length (run_calls w') = length (run_calls w) + length segs
       \<and> temp_dirs w' = temp_dirs w \<and> files_written w' = files_written w
       \<and> tfs = temp_files
           @ map (\<lambda>j. path_join temp_dir (''seg_'' @ zero_pad 4 (i + j) @ ''.ts''))
               [0..<length segs]"
  using assms
proof (induction segs arbitrary: i temp_files w)
  case Nil
  then show ?case by simp
next
  case (Cons seg segs)
  from Cons.prems show ?case
  proof (cases rule: segment_loop_Cons_cases)
    case (goes_on cmd err)
    from Cons.IH[OF goes_on(3)] show ?thesis
      by (simp add: upt_rec[of 0 "Suc (length segs)"] map_Suc_upt[symmetric] del: upt_Suc)
  qed simp_all
qed

lemma segment_loop_Return:
  assumes "segment_loop env src flip temp_dir i segs temp_files w = (Return r, w')"
  shows "temp_dirs w' = removeAll temp_dir (temp_dirs w) \<and> files_written w' = files_written w"
  using assms
proof (induction segs arbitrary: i temp_files w)
  case Nil
  then show ?case by simp
next
  case (Cons seg segs)
  from Cons.prems show ?case
  proof (cases rule: segment_loop_Cons_cases)
    case (fails cmd rc err)
    then show ?thesis by (simp add: rmtree_fields)
  next
    case (goes_on cmd err)
    from Cons.IH[OF goes_on(3)] show ?thesis by simp
  qed simp_all
qed

text \<open>A call of the loop that ended with a return code other than 0 is the last call;
  the loop returns the error of that segment and removes the directory.\<close>

lemma segment_loop_nonzero_exit:
  assumes "segment_loop env src flip temp_dir i segs temp_files w = (fl, w')"
    and "length (run_calls w) \<le> k" and "k < length (run_calls w')"
    and "run_outcome env k = Completed rc err" and "rc \<noteq> 0"
  shows "fl = Return (500, SegmentError (i + (k - length (run_calls w)) + 1) (tail_chars 300 err))
       \<and> length (run_calls w') = k + 1
       \<and> temp_dirs w' = removeAll temp_dir (temp_dirs w)
       \<and> files_written w' = files_written w"
  using assms
proof (induction segs arbitrary: i temp_files w)
  case Nil
  then show ?case by simp
next
  case (Cons seg segs)
  from Cons.prems(1) show ?case
  proof (cases rule: segment_loop_Cons_cases)
    case (build_raises e)
    with Cons.prems show ?thesis by simp
  next
    case (run_raises cmd e)
    with Cons.prems have "k = length (run_calls w)" by simp
    with run_raises Cons.prems show ?thesis by simp
  next
    case (fails cmd rc' err')
    with Cons.prems have "k = length (run_calls w)" by (simp add: rmtree_fields)
    with fails Cons.prems show ?thesis by (simp add: rmtree_fields)
  next
    case (goes_on cmd err')
    from goes_on(2) Cons.prems(4,5) have "k \<noteq> length (run_calls w)" by auto
    with Cons.prems(2) have k: "length (run_calls (w\<lparr> run_calls := run_calls w @ [cmd] \<rparr>)) \<le> k"
      by simp
    from Cons.IH[OF goes_on(3) k Cons.prems(3,4,5)] k
    show ?thesis by (simp add: Suc_diff_le)
  qed
qed

subsection \<open>The two branches and the handler\<close>

lemma export_single_cases:
  assumes "export_single env src flip seg output_path w = (fl, w')"
  obtains
    (build_raises) e where
      "segment_cmd src seg flip [output_path] = Inl e" "fl = Raise e" "w' = w"
  | (run_raises) cmd e where
      "segment_cmd src seg flip [output_path] = Inr cmd"
      "run_outcome env (length (run_calls w)) = RunRaises e"
      "fl = Raise e" "w' = w\<lparr> run_calls := run_calls w @ [cmd] \<rparr>"
  | (fails) cmd rc err where
      "segment_cmd src seg flip [output_path] = Inr cmd"
      "run_outcome env (length (run_calls w)) = Completed rc err" "rc \<noteq> 0"
      "fl = Return (500, FfmpegError (tail_chars 300 err))"
      "w' = w\<lparr> run_calls := run_calls w @ [cmd] \<rparr>"
  | (succeeds) cmd err where
      "segment_cmd src seg flip [output_path] = Inr cmd"
      "run_outcome env (length (run_calls w)) = Completed 0 err"
      "fl = Continue ()" "w' = w\<lparr> run_calls := run_calls w @ [cmd] \<rparr>"
  using assms
  by (auto simp: export_single_def subprocess_run_def
      split: sum.splits proc_outcome.splits if_splits)

lemma export_multi_cases:
  assumes "export_multi env src flip segs output_path w = (fl, w')"
  obtains
    (mkdtemp_raises) e where "mkdtemp env = Inl e" "fl = Raise e" "w' = w"
  | (loop_returns) temp_dir r where
      "mkdtemp env = Inr temp_dir"
      "segment_loop env src flip temp_dir 0 segs []
         (w\<lparr> temp_dirs := temp_dirs w @ [temp_dir] \<rparr>) = (Return r, w')"
      "fl = Return r"
  | (loop_raises) temp_dir e where
      "mkdtemp env = Inr temp_dir"
      "segment_loop env src flip temp_dir 0 segs []
         (w\<lparr> temp_dirs := temp_dirs w @ [temp_dir] \<rparr>) = (Raise e, w')"
      "fl = Raise e"
  | (manifest_raises) temp_dir tfs e where
      "mkdtemp env = Inr temp_dir"
      "segment_loop env src flip temp_dir 0 segs []
         (w\<lparr> temp_dirs := temp_dirs w @ [temp_dir] \<rparr>) = (Continue tfs, w')"
      "write_manifest env = Some e" "fl = Raise e"
  | (concat_raises) temp_dir tfs w1 e where
      "mkdtemp env = Inr temp_dir"
      "segment_loop env src flip temp_dir 0 segs []
         (w\<lparr> temp_dirs := temp_dirs w @ [temp_dir] \<rparr>) = (Continue tfs, w1)"
      "write_manifest env = None"
      "run_outcome env (length (run_calls w1)) = RunRaises e" "fl = Raise e"
      "w' = w1\<lparr> files_written :=
                   files_written w1 @ [(path_join temp_dir ''concat.txt'', manifest_text tfs)],
                 run_calls :=
                   run_calls w1 @ [concat_cmd (path_join temp_dir ''concat.txt'') output_path] \<rparr>"
  | (concat_done) temp_dir tfs w1 rc err where
      "mkdtemp env = Inr temp_dir"
      "segment_loop env src flip temp_dir 0 segs []
         (w\<lparr> temp_dirs := temp_dirs w @ [temp_dir] \<rparr>) = (Continue tfs, w1)"
      "write_manifest env = None"
      "run_outcome env (length (run_calls w1)) = Completed rc err"
      "fl = (if rc \<noteq> 0 then Return (500, ConcatError (tail_chars 300 err)) else Continue ())"
      "w' = rmtree temp_dir
              (w1\<lparr> files_written :=
                     files_written w1 @ [(path_join temp_dir ''concat.txt'', manifest_text tfs)],
                   run_calls :=
                     run_calls w1 @ [concat_cmd (path_join temp_dir ''concat.txt'') output_path] \<rparr>)"
proof (cases "mkdtemp env")
  case (Inl e)
  with assms show ?thesis by (intro mkdtemp_raises[of e]) (simp_all add: export_multi_def)
next
  case (Inr temp_dir)
  obtain fl1 w1 where loop: "segment_loop env src flip temp_dir 0 segs []
         (w\<lparr> temp_dirs := temp_dirs w @ [temp_dir] \<rparr>) = (fl1, w1)"
    by (cases "segment_loop env src flip temp_dir 0 segs []
         (w\<lparr> temp_dirs := temp_dirs w @ [temp_dir] \<rparr>)") auto
  show ?thesis
  proof (cases fl1)
    case (Return r)
    with assms Inr loop show ?thesis
      by (intro loop_returns[of temp_dir r]) (simp_all add: export_multi_def)
  next
    case (Raise e)
    with assms Inr loop show ?thesis
      by (intro loop_raises[of temp_dir e]) (simp_all add: export_multi_def)
  next
    case (Continue tfs)
    show ?thesis
    proof (cases "write_manifest env")
      case (Some e)
      with assms Inr loop Continue show ?thesis
        by (intro manifest_raises[of temp_dir tfs e]) (simp_all add: export_multi_def)
    next
      case None
      show ?thesis
      proof (cases "run_outcome env (length (run_calls w1))")
        case (RunRaises e)
        with assms Inr loop Continue None show ?thesis
          by (intro concat_raises[of temp_dir tfs w1 e])
             (simp_all add: export_multi_def subprocess_run_def Let_def)
      next
        case (Completed rc err)
        with assms Inr loop Continue None show ?thesis
          by (intro concat_done[of temp_dir tfs w1 rc err])
             (auto simp add: export_multi_def subprocess_run_def Let_def split: if_splits)
      qed
    qed
  qed
qed

text \<open>The handler on a non-empty list: the branch taken, its effects, and the answer.\<close>

lemma handle_export_branch:
  assumes "segments req \<noteq> []"
    and "export_branch env req (output_path_of env req) no_effects = (fl, w)"
  shows "snd (handle_export env req) = w"
    and "fl = Return r \<Longrightarrow> fst (handle_export env req) = r"
    and "fl = Raise e \<Longrightarrow> fst (handle_export env req) = except_response e"
    and "fl = Continue u \<Longrightarrow>
           fst (handle_export env req)
             = (case getsize env (output_path_of env req) of
                  Inl e \<Rightarrow> except_response e
                | Inr n \<Rightarrow> (200, Success (output_path_of env req) n))"
  using assms
  by (auto simp: handle_export_def export_try_def split: flow.splits sum.splits)

lemma no_effects_fields:
  "run_calls no_effects = []" "temp_dirs no_effects = []" "files_written no_effects = []"
  by (simp_all add: no_effects_def)

text \<open>In the multi-segment branch, the calls with an index below the number of
  segments are calls of the loop.\<close>

lemma export_multi_loop_calls:
  assumes "export_multi env src flip segs output_path no_effects = (fl, w')"
    and "k < length segs" and "k < length (run_calls w')"
  obtains temp_dir fl1 w1 where
    "mkdtemp env = Inr temp_dir"
    "segment_loop env src flip temp_dir 0 segs []
       (no_effects\<lparr> temp_dirs := temp_dirs no_effects @ [temp_dir] \<rparr>) = (fl1, w1)"
    "k < length (run_calls w1)"
    "run_calls w' ! k = run_calls w1 ! k"
    "\<forall>r. fl1 = Return r \<longrightarrow> fl = Return r \<and> w' = w1"
  using assms(1)
proof (cases rule: export_multi_cases)
  case (mkdtemp_raises e)
  with assms(3) show ?thesis by (simp add: no_effects_fields)
next
  case (loop_returns temp_dir r')
  with assms(3) show ?thesis by (intro that[of temp_dir "Return r'" w']) simp_all
next
  case (loop_raises temp_dir e)
  with assms(3) show ?thesis by (intro that[of temp_dir "Raise e" w']) simp_all
next
  case (manifest_raises temp_dir tfs e)
  with assms(3) show ?thesis by (intro that[of temp_dir "Continue tfs" w']) simp_all
next
  case (concat_raises temp_dir tfs w1 e)
  from segment_loop_Continue[OF concat_raises(2)] assms(2)
  have "k < length (run_calls w1)" by simp
  with concat_raises show ?thesis
    by (intro that[of temp_dir "Continue tfs" w1]) (simp_all add: nth_append)
next
  case (concat_done temp_dir tfs w1 rc err)
  from segment_loop_Continue[OF concat_done(2)] assms(2)
  have "k < length (run_calls w1)" by simp
  with concat_done show ?thesis
    by (intro that[of temp_dir "Continue tfs" w1]) (simp_all add: nth_append rmtree_fields)
qed

lemma handle_export_nth_call:
  assumes "k < length (segments req)"
    and "k < length (run_calls (snd (handle_export env req)))"
  shows "\<exists>tail. segment_cmd (source req) (segments req ! k) (vflip req) tail
                  = Inr (run_calls (snd (handle_export env req)) ! k)
           \<and> (tail = [output_path_of env req] \<or> (\<exists>tmp. tail = [''-f'', ''mpegts'', tmp]))"
proof -
  from assms(1) have ne: "segments req \<noteq> []" by auto
  obtain fl w where br: "export_branch env req (output_path_of env req) no_effects = (fl, w)"
    by (cases "export_branch env req (output_path_of env req) no_effects") auto
  have w: "snd (handle_export env req) = w"
    using ne br by (rule handle_export_branch(1))
  show ?thesis
  proof (cases "length (segments req) = 1")
    case True
    with assms(1) have k: "k = 0" by simp
    from True have hd: "hd (segments req) = segments req ! 0"
      by (cases "segments req") auto
    from br True have "export_single env (source req) (vflip req) (segments req ! 0)
                         (output_path_of env req) no_effects = (fl, w)"
      by (simp add: export_branch_def hd)
    then show ?thesis
    proof (cases rule: export_single_cases)
      case (build_raises e)
      with assms(2) w show ?thesis by (simp add: no_effects_fields)
    qed (use w k in \<open>auto simp: no_effects_fields\<close>)
  next
    case False
    with br have "export_multi env (source req) (vflip req) (segments req)
                         (output_path_of env req) no_effects = (fl, w)"
      by (simp add: export_branch_def)
    from this assms(1) assms(2)[unfolded w]
    obtain temp_dir fl1 w1 where l:
      "segment_loop env (source req) (vflip req) temp_dir 0 (segments req) []
         (no_effects\<lparr> temp_dirs := temp_dirs no_effects @ [temp_dir] \<rparr>) = (fl1, w1)"
      "k < length (run_calls w1)" "run_calls w ! k = run_calls w1 ! k"
      by (rule export_multi_loop_calls) blast
    from segment_loop_calls[OF l(1)] l(2)
    have "segment_cmd (source req) (segments req ! k) (vflip req)
            [''-f'', ''mpegts'', path_join temp_dir (''seg_'' @ zero_pad 4 k @ ''.ts'')]
          = Inr (run_calls w1 ! k)"
      by (auto simp: no_effects_fields)
    with l(3) w show ?thesis by auto
  qed
qed

subsection \<open>Evaluating the handler on the example inputs\<close>

lemma str_nat_examples:
  "str_nat 0 = ''0''" "str_nat 2 = ''2''" "str_nat 3 = ''3''" "str_nat 5 = ''5''"
  "str_nat 10 = ''10''" "str_nat 20 = ''20''" "str_nat 30 = ''30''" "str_nat 40 = ''40''"
  by code_simp+

lemma segment_cmd_whole:
  assumes "a < 2 ^ 53" and "b < 2 ^ 53"
  shows "segment_cmd src (float_range a b) flip tail
           = Inr ([''ffmpeg'', ''-y'', ''-ss'', str_nat a @ ''.0000'', ''-i'', src, ''-t'',
                   (if b < a then ''-'' else []) @ str_nat (if b < a then a - b else b - a)
                     @ ''.0000'']
                  @ codec_args flip @ [''-avoid_negative_ts'', ''make_zero''] @ tail)"
proof -
  have z: "format_4f (Finite False 0) = ''0.0000''"
    using format_4f_whole[of False 0] by (simp add: str_nat_examples del: format_4f.simps)
  consider "a = b" | "a < b" | "b < a" by linarith
  then have "\<exists>d. float_sub (Finite False (of_nat b)) (Finite False (of_nat a)) = d
           \<and> format_4f d = (if b < a then ''-'' else []) @ str_nat (if b < a then a - b else b - a)
                     @ ''.0000''"
  proof cases
    case 1
    with float_sub_whole[OF assms] z show ?thesis
      by (simp add: str_nat_examples del: format_4f.simps float_sub.simps)
  next
    case 2
    with float_sub_whole[OF assms] format_4f_whole[of False "b - a"] show ?thesis
      by (simp del: format_4f.simps float_sub.simps of_nat_diff)
  next
    case 3
    with float_sub_whole[OF assms] format_4f_whole[of True "a - b"] show ?thesis
      by (simp del: format_4f.simps float_sub.simps of_nat_diff)
  qed
  then show ?thesis
    by (auto simp add: segment_cmd_def float_range_def format_4f_whole
        simp del: format_4f.simps float_sub.simps of_nat_diff)
qed

lemma demo_paths:
  "output_path_of demo_env (demo_request segs flip) = ''/v/video_cut.mp4''"
  "output_path_of timeout_env (demo_request segs flip) = ''/v/video_cut.mp4''"
  "output_path_of second_fails_env (demo_request segs flip) = ''/v/video_cut.mp4''"
proof -
  have "choose_output_path [] ''/v/video.mp4'' ''/v'' = ''/v/video_cut.mp4''"
    by code_simp
  then show "output_path_of demo_env (demo_request segs flip) = ''/v/video_cut.mp4''"
    "output_path_of timeout_env (demo_request segs flip) = ''/v/video_cut.mp4''"
    "output_path_of second_fails_env (demo_request segs flip) = ''/v/video_cut.mp4''"
    by (simp_all add: output_path_of_def requested_output_dir_def demo_request_def
        demo_env_def timeout_env_def second_fails_env_def)
qed

lemma zero_pad_examples:
  "zero_pad 4 0 = ''0000''" "zero_pad 4 (Suc 0) = ''0001''" "zero_pad 4 1 = ''0001''"
  "zero_pad 4 2 = ''0002''"
  by code_simp+

lemma eval_second_fails:
  "handle_export second_fails_env
     (demo_request [float_range 0 10, float_range 20 30, float_range 40 50] False)
   = ((500, SegmentError 2 ''boom''),
      \<lparr> run_calls =
          [[''ffmpeg'', ''-y'', ''-ss'', ''0.0000'', ''-i'', ''/v/video.mp4'', ''-t'', ''10.0000'',
            ''-c'', ''copy'', ''-avoid_negative_ts'', ''make_zero'', ''-f'', ''mpegts'',
            ''/tmp/tmpx/seg_0000.ts''],
           [''ffmpeg'', ''-y'', ''-ss'', ''20.0000'', ''-i'', ''/v/video.mp4'', ''-t'', ''10.0000'',
            ''-c'', ''copy'', ''-avoid_negative_ts'', ''make_zero'', ''-f'', ''mpegts'',
            ''/tmp/tmpx/seg_0001.ts'']],
        temp_dirs = [], files_written = [] \<rparr>)"
  by (simp add: handle_export_def export_try_def export_branch_def export_multi_def
      demo_paths demo_request_def second_fails_env_def demo_env_def no_effects_def
      segment_cmd_whole str_nat_examples zero_pad_examples path_join_def codec_args_def
      subprocess_run_def rmtree_def tail_chars_def)

subsection \<open>Status codes and the first call\<close>

lemma segment_loop_Return_status:
  assumes "segment_loop env src flip temp_dir i segs temp_files w = (Return r, w')"
  shows "fst r = 500"
  using assms
proof (induction segs arbitrary: i temp_files w)
  case Nil
  then show ?case by simp
next
  case (Cons seg segs)
  from Cons.prems show ?case
  proof (cases rule: segment_loop_Cons_cases)
    case (goes_on cmd err)
    from Cons.IH[OF goes_on(3)] show ?thesis .
  qed simp_all
qed

lemma export_branch_Return_status:
  assumes "export_branch env req output_path w = (Return r, w')"
  shows "fst r = 500"
proof (cases "length (segments req) = 1")
  case True
  with assms have "export_single env (source req) (vflip req) (hd (segments req))
                     output_path w = (Return r, w')"
    by (simp add: export_branch_def)
  then show ?thesis by (cases rule: export_single_cases) simp_all
next
  case False
  with assms have "export_multi env (source req) (vflip req) (segments req)
                     output_path w = (Return r, w')"
    by (simp add: export_branch_def)
  then show ?thesis
  proof (cases rule: export_multi_cases)
    case (loop_returns temp_dir r')
    with segment_loop_Return_status[OF loop_returns(2)] show ?thesis by simp
  next
    case (concat_done temp_dir tfs w1 rc err)
    then show ?thesis by (auto split: if_splits)
  qed simp_all
qed

lemma fst_except_response: "fst (except_response e) = 500"
  by (cases e) (simp_all add: except_response_def)

lemma except_response_no_success:
  "except_response e \<noteq> (200, m)" "(200, m) \<noteq> except_response e"
  by (cases e; simp add: except_response_def)+

lemma handle_export_status:
  assumes "segments req \<noteq> []"
  shows "fst (fst (handle_export env req)) = 200 \<or> fst (fst (handle_export env req)) = 500"
proof -
  obtain fl w where br: "export_branch env req (output_path_of env req) no_effects = (fl, w)"
    by (cases "export_branch env req (output_path_of env req) no_effects") auto
  show ?thesis
  proof (cases fl)
    case (Return r)
    with br have "fst r = 500" by (auto dest: export_branch_Return_status)
    with Return handle_export_branch(2)[OF assms br, of r]
    show ?thesis by simp
  next
    case (Raise e)
    with handle_export_branch(3)[OF assms br, of e] show ?thesis
      by (simp add: fst_except_response)
  next
    case (Continue u)
    with handle_export_branch(4)[OF assms br, of u] show ?thesis
      by (auto simp: fst_except_response split: sum.splits)
  qed
qed

lemma handle_export_success_path:
  assumes "fst (handle_export env req) = (200, Success p n)"
  shows "p = output_path_of env req"
proof -
  from assms have ne: "segments req \<noteq> []"
    by (auto simp: handle_export_def)
  obtain fl w where br: "export_branch env req (output_path_of env req) no_effects = (fl, w)"
    by (cases "export_branch env req (output_path_of env req) no_effects") auto
  show ?thesis
  proof (cases fl)
    case (Return r)
    with br have "fst r = 500" by (auto dest: export_branch_Return_status)
    with Return handle_export_branch(2)[OF ne br, of r] assms
    show ?thesis by auto
  next
    case (Raise e)
    with handle_export_branch(3)[OF ne br, of e] assms
    show ?thesis by (simp add: except_response_no_success)
  next
    case (Continue u)
    with handle_export_branch(4)[OF ne br, of u] assms
    show ?thesis by (auto simp: except_response_no_success split: sum.splits)
  qed
qed

text \<open>Once the command of the first segment can be built (and, with several segments,
  the temporary directory created), it is the first call made.\<close>

lemma segment_loop_first_call:
  assumes "segment_loop env src flip temp_dir i (seg # segs) temp_files w = (fl, w')"
    and "segment_cmd src seg flip
           [''-f'', ''mpegts'', path_join temp_dir (''seg_'' @ zero_pad 4 i @ ''.ts'')] = Inr cmd"
  shows "\<exists>cs. run_calls w' = run_calls w @ cmd # cs"
  using assms(1)
proof (cases rule: segment_loop_Cons_cases)
  case (build_raises e)
  with assms(2) show ?thesis by simp
next
  case (run_raises cmd' e)
  with assms(2) show ?thesis by simp
next
  case (fails cmd' rc err)
  with assms(2) show ?thesis by (simp add: rmtree_fields)
next
  case (goes_on cmd' err)
  from segment_loop_calls[OF goes_on(3)] goes_on(1) assms(2) show ?thesis by auto
qed

lemma handle_export_first_call:
  assumes "segments req = seg # rest"
    and "\<And>tail. segment_cmd (source req) seg (vflip req) tail = Inr (cmd tail)"
    and "rest = [] \<or> (\<exists>dir. mkdtemp env = Inr dir)"
  shows "\<exists>tail cs. run_calls (snd (handle_export env req)) = cmd tail # cs"
proof -
  from assms(1) have ne: "segments req \<noteq> []" by simp
  obtain fl w where br: "export_branch env req (output_path_of env req) no_effects = (fl, w)"
    by (cases "export_branch env req (output_path_of env req) no_effects") auto
  have w: "snd (handle_export env req) = w"
    using ne br by (rule handle_export_branch(1))
  show ?thesis
  proof (cases "rest = []")
    case True
    with br assms(1) have "export_single env (source req) (vflip req) seg
                         (output_path_of env req) no_effects = (fl, w)"
      by (simp add: export_branch_def)
    then show ?thesis
      using assms(2)[of "[output_path_of env req]"] w
      by (cases rule: export_single_cases) (auto simp: no_effects_fields)
  next
    case False
    with assms(3) obtain dir where dir: "mkdtemp env = Inr dir" by auto
    from False assms(1) have "length (segments req) \<noteq> 1" by simp
    with br assms(1) have m: "export_multi env (source req) (vflip req) (seg # rest)
                         (output_path_of env req) no_effects = (fl, w)"
      by (simp add: export_branch_def)
    let ?tail = "[''-f'', ''mpegts'', path_join dir (''seg_'' @ zero_pad 4 0 @ ''.ts'')]"
    have first: "\<exists>cs. run_calls w1 = cmd ?tail # cs"
      if "segment_loop env (source req) (vflip req) dir 0 (seg # rest) []
            (no_effects\<lparr> temp_dirs := temp_dirs no_effects @ [dir] \<rparr>) = (fl1, w1)"
      for fl1 w1
      using segment_loop_first_call[OF that assms(2)[of ?tail]]
      by (simp add: no_effects_fields)
    from m show ?thesis
    proof (cases rule: export_multi_cases)
      case (mkdtemp_raises e)
      with dir show ?thesis by simp
    next
      case (loop_returns temp_dir r)
      with dir first[of "Return r" w] w show ?thesis by auto
    next
      case (loop_raises temp_dir e)
      with dir first[of "Raise e" w] w show ?thesis by auto
    next
      case (manifest_raises temp_dir tfs e)
      with dir first[of "Continue tfs" w] w show ?thesis by auto
    next
      case (concat_raises temp_dir tfs w1 e)
      with dir first[of "Continue tfs" w1] w show ?thesis by auto
    next
      case (concat_done temp_dir tfs w1 rc err)
      with dir first[of "Continue tfs" w1] w show ?thesis by (auto simp: rmtree_fields)
    qed
  qed
qed

subsection \<open>The shape and the value of \<^verbatim>\<open>.4f\<close> text\<close>

lemma length_str_nat_le: "0 < k \<Longrightarrow> n < 10 ^ k \<Longrightarrow> length (str_nat n) \<le> k"
proof (induction n arbitrary: k rule: str_nat.induct)
  case (1 n)
  show ?case
  proof (cases "n < 10")
    case True
    with "1.prems" show ?thesis by (subst str_nat.simps) simp
  next
    case False
    with "1.prems" obtain j where k: "k = Suc j" by (cases k) auto
    with "1.prems" False have "0 < j" by (cases j) auto
    from "1.prems" k have "n div 10 < 10 ^ j"
      by (simp add: less_mult_imp_div_less mult.commute)
    from "1.IH"[OF False \<open>0 < j\<close> this] False k show ?thesis
      by (subst str_nat.simps) simp
  qed
qed

lemma nat_of_digits_zeros: "nat_of_digits (replicate j CHR ''0'' @ ds) = nat_of_digits ds"
proof -
  have "foldl (\<lambda>acc c. 10 * acc + digit_val c) 0 (replicate j CHR ''0'') = 0"
    by (induction j) (simp_all add: digit_val_def)
  then show ?thesis by (simp add: nat_of_digits_def)
qed

lemma zero_pad_4:
  assumes "fr < 10000"
  shows "length (zero_pad 4 fr) = 4" "list_all is_digit (zero_pad 4 fr)"
    "nat_of_digits (zero_pad 4 fr) = fr"
proof -
  from assms have "length (str_nat fr) \<le> 4"
    by (intro length_str_nat_le) simp_all
  then show "length (zero_pad 4 fr) = 4" by (simp add: zero_pad_def)
  have "is_digit CHR ''0''" by (simp add: is_digit_def)
  then show "list_all is_digit (zero_pad 4 fr)"
    using str_nat_digits[of fr] by (auto simp add: zero_pad_def list_all_iff)
  show "nat_of_digits (zero_pad 4 fr) = fr"
    by (simp add: zero_pad_def nat_of_digits_zeros nat_of_digits_str_nat)
qed

lemma split_at_point:
  assumes "list_all is_digit ds"
  shows "takeWhile is_digit (ds @ CHR ''.'' # xs) = ds"
    and "dropWhile is_digit (ds @ CHR ''.'' # xs) = CHR ''.'' # xs"
proof -
  have np: "\<not> is_digit CHR ''.''" by (simp add: is_digit_def)
  from assms have all: "\<And>x. x \<in> set ds \<Longrightarrow> is_digit x" by (simp add: list_all_iff)
  show "takeWhile is_digit (ds @ CHR ''.'' # xs) = ds"
    using takeWhile_append2[of ds is_digit "CHR ''.'' # xs"] all np by simp
  show "dropWhile is_digit (ds @ CHR ''.'' # xs) = CHR ''.'' # xs"
    using dropWhile_append2[of ds is_digit "CHR ''.'' # xs"] all np by simp
qed

lemma unsigned_part_format:
  "unsigned_part ((if s then ''-'' else []) @ str_nat n @ xs) = str_nat n @ xs"
proof -
  obtain c cs where c: "str_nat n = c # cs" using str_nat_nonempty[of n] by (cases "str_nat n") auto
  with str_nat_digits[of n] have "is_digit c" by simp
  then have "c \<noteq> CHR ''-''" by (auto simp: is_digit_def)
  with c show ?thesis by (simp add: unsigned_part_def)
qed

lemma format_4f_Finite:
  "format_4f (Finite s m)
     = (if s then ''-'' else [])
       @ str_nat (nat (round_half_even (m * 10000)) div 10000)
       @ CHR ''.'' # zero_pad 4 (nat (round_half_even (m * 10000)) mod 10000)"
  by simp

lemma four_decimals_format_4f: "four_decimals (format_4f (Finite s m))"
proof -
  define N where "N = nat (round_half_even (m * 10000))"
  have fr: "N mod 10000 < 10000" by simp
  show ?thesis
    unfolding format_4f_Finite N_def[symmetric] four_decimals_def Let_def unsigned_part_format
    using zero_pad_4(1,2)[OF fr] split_at_point[OF str_nat_digits, of "N div 10000"]
      str_nat_nonempty[of "N div 10000"]
    by simp
qed

lemma decimal_magnitude_format_4f:
  "decimal_magnitude (format_4f (Finite s m))
     = of_nat (nat (round_half_even (m * 10000))) / 10000"
proof -
  define N where "N = nat (round_half_even (m * 10000))"
  have fr: "N mod 10000 < 10000" by simp
  have "decimal_magnitude (format_4f (Finite s m))
          = of_nat (N div 10000) + of_nat (N mod 10000) / 10000"
    unfolding format_4f_Finite N_def[symmetric] decimal_magnitude_def Let_def unsigned_part_format
    using zero_pad_4(3)[OF fr] split_at_point[OF str_nat_digits, of "N div 10000"]
    by (simp add: nat_of_digits_str_nat)
  also have "\<dots> = (of_nat N :: rat) / 10000"
  proof -
    have "(of_nat N :: rat) = of_nat (N div 10000 * 10000 + N mod 10000)" by simp
    also have "\<dots> = of_nat (N div 10000) * 10000 + of_nat (N mod 10000)"
      by (simp only: of_nat_add of_nat_mult of_nat_numeral)
    finally show ?thesis by (simp add: add_divide_distrib)
  qed
  finally show ?thesis by (simp only: N_def)
qed

lemma format_4f_accurate:
  assumes "0 \<le> m"
  shows "\<bar>decimal_magnitude (format_4f (Finite s m)) - m\<bar> \<le> 1 / 20000"
proof -
  define z where "z = round_half_even (m * 10000)"
  from assms have "0 \<le> z" unfolding z_def by (intro round_half_even_nonneg) simp
  then have n: "(of_nat (nat z) :: rat) = of_int z" by simp
  have "\<bar>of_int z - m * 10000\<bar> \<le> 1 / 2" unfolding z_def by (rule round_half_even_close)
  then have "\<bar>of_int z / 10000 - m\<bar> \<le> 1 / 20000"
    by (simp add: abs_le_iff field_simps)
  then show ?thesis
    by (simp only: decimal_magnitude_format_4f z_def[symmetric] n)
qed

lemma num_format_4f_shape:
  assumes "is_finite x" and "num_format_4f x = Inr s"
  shows "four_decimals s"
proof (cases x)
  case (PyInt n)
  with assms(2) obtain r where "s = format_4f (Finite (n < 0) r)"
    by (auto simp: int_to_float_def split: option.splits)
  then show ?thesis by (simp only: four_decimals_format_4f)
next
  case (PyFloat f)
  with assms(1) obtain sg m where "f = Finite sg m" by (cases f) auto
  with PyFloat assms(2) have "s = format_4f (Finite sg m)" by simp
  then show ?thesis by (simp only: four_decimals_format_4f)
qed

subsection \<open>Rounding stays finite below the overflow threshold\<close>

lemma pow2_power_int: "pow2 e = power_int 2 e"
  by (simp add: pow2_def power_int_def power_one_over inverse_eq_divide)

lemma pow2_pos: "0 < pow2 e"
  by (simp add: pow2_power_int)

lemma pow2_mono: "a \<le> b \<Longrightarrow> pow2 a \<le> pow2 b"
  by (simp add: pow2_power_int power_int_increasing)

lemma pow2_half: "pow2 (e + 1) / 2 = pow2 e"
  by (simp add: pow2_power_int power_int_add)

lemma pow2_ilog2_le:
  assumes "0 < m"
  shows "pow2 (ilog2 m) \<le> m"
proof -
  obtain n d where q: "quotient_of m = (n, d)" by (cases "quotient_of m") auto
  then have d: "0 < d" by (rule quotient_of_denom_pos)
  from q have m: "m = of_int n / of_int d" by (rule quotient_of_div)
  with assms d have n: "0 < n" by (simp add: zero_less_divide_iff)
  define e where "e = bitlen n - bitlen d"
  show ?thesis
  proof (cases "pow2 e \<le> m")
    case True
    then show ?thesis by (simp add: ilog2_def q e_def Let_def)
  next
    case False
    then have il: "ilog2 m = e - 1" by (simp add: ilog2_def q e_def Let_def)
    from bitlen_bounds[OF n] have lo: "(2::int) ^ nat (bitlen n - 1) \<le> n" by simp
    from bitlen_bounds[OF d] have hi: "d < (2::int) ^ nat (bitlen d)" by simp
    have bitlen_ge_1: "1 \<le> bitlen x" if "0 < x" for x
    proof -
      from that have "bitlen x \<noteq> 0" by (simp add: bitlen_eq_zero_iff)
      with bitlen_nonneg[of x] show ?thesis by linarith
    qed
    from n have bn: "1 \<le> bitlen n" by (rule bitlen_ge_1)
    from d have bd: "1 \<le> bitlen d" by (rule bitlen_ge_1)
    have "pow2 (e - 1) = power_int 2 ((bitlen n - 1) - bitlen d)"
      by (simp add: pow2_power_int e_def algebra_simps)
    also have "\<dots> = power_int 2 (bitlen n - 1) / power_int 2 (bitlen d)"
      by (rule power_int_diff) simp
    also have "\<dots> = (2::rat) ^ nat (bitlen n - 1) / 2 ^ nat (bitlen d)"
      using bn bd by (simp add: power_int_def)
    also have "\<dots> \<le> of_int n / of_int d"
    proof -
      have "(of_int ((2::int) ^ nat (bitlen n - 1)) :: rat) \<le> of_int n"
        using lo by (simp only: of_int_le_iff)
      then have 1: "(2::rat) ^ nat (bitlen n - 1) \<le> of_int n" by simp
      have 2: "(0::rat) < of_int d" using d by simp
      have "(of_int d :: rat) \<le> of_int ((2::int) ^ nat (bitlen d))"
        using hi by (simp only: of_int_le_iff)
      then have 3: "(of_int d :: rat) \<le> 2 ^ nat (bitlen d)" by simp
      have 0: "(0::rat) \<le> of_int n" using n by simp
      from 0 1 2 3 show ?thesis by (intro frac_le)
    qed
    finally have "pow2 (e - 1) \<le> of_int n / of_int d" .
    with m have "pow2 (e - 1) \<le> m" by simp
    then show ?thesis by (simp only: il)
  qed
qed

lemma ilog2_less:
  assumes "0 < m" and "m < pow2 k"
  shows "ilog2 m < k"
proof (rule ccontr)
  assume "\<not> ilog2 m < k"
  then have "pow2 k \<le> pow2 (ilog2 m)" by (intro pow2_mono) simp
  with pow2_ilog2_le[OF assms(1)] assms(2) show False by simp
qed

lemma round_binary64_in_range:
  assumes "0 < m" and "m < pow2 1024 - pow2 970"
  shows "\<exists>r. round_binary64 m = Some r"
proof -
  define e where "e = max (ilog2 m) (- 1022)"
  define q where "q = pow2 (e - 52)"
  define z where "z = round_half_even (m / q)"
  from assms(2) pow2_pos[of 970] have "m < pow2 1024" by simp
  with assms(1) have "ilog2 m < 1024" by (rule ilog2_less)
  then have "e - 52 \<le> 971" by (simp add: e_def)
  then have q971: "q \<le> pow2 971" unfolding q_def by (rule pow2_mono)
  have qpos: "0 < q" unfolding q_def by (rule pow2_pos)
  have "\<bar>of_int z - m / q\<bar> \<le> 1 / 2"
    unfolding z_def by (rule round_half_even_close)
  then have "of_int z \<le> m / q + 1 / 2" by linarith
  then have "of_int z * q \<le> (m / q + 1 / 2) * q"
    using qpos by (simp only: mult_le_cancel_right_pos)
  also have "\<dots> = m + q / 2" using qpos by (simp add: field_simps)
  also have "\<dots> \<le> m + pow2 971 / 2" using q971 by simp
  also have "pow2 971 / 2 = pow2 970" using pow2_half[of 970] by simp
  finally have "of_int z * q < pow2 1024" using assms(2) by simp
  then have "\<not> pow2 1024 \<le> of_int z * q" by simp
  with assms(1) show ?thesis
    by (simp add: round_binary64_def Let_def e_def[symmetric] q_def[symmetric] z_def[symmetric])
qed

lemma float_sub_finite:
  assumes "\<bar>signed sb b - signed sa a\<bar> < pow2 1024 - pow2 970"
  shows "is_finite (PyFloat (float_sub (Finite sb b) (Finite sa a)))"
proof (cases "signed sb b - signed sa a = 0")
  case True
  then show ?thesis by simp
next
  case False
  then have "0 < \<bar>signed sb b - signed sa a\<bar>" by simp
  from round_binary64_in_range[OF this assms] False show ?thesis
    by (auto simp: float_of_rat_def)
qed

lemma segment_cmd_Inr:
  assumes "segment_cmd src seg flip tail = Inr cmd"
  obtains ss d t where
    "num_sub (seg_out seg) (seg_in seg) = Inr d"
    "num_format_4f (seg_in seg) = Inr ss"
    "num_format_4f d = Inr t"
    "cmd = [''ffmpeg'', ''-y'', ''-ss'', ss, ''-i'', src, ''-t'', t]
             @ codec_args flip @ [''-avoid_negative_ts'', ''make_zero''] @ tail"
  using assms by (auto simp: segment_cmd_def split: sum.splits)

lemma demo_request_fields:
  "source (demo_request segs flip) = ''/v/video.mp4''"
  "segments (demo_request segs flip) = segs"
  "vflip (demo_request segs flip) = flip"
  by (simp_all add: demo_request_def)

lemma demo_env_fields:
  "mkdtemp demo_env = Inr ''/tmp/tmpx''" "run_outcome demo_env n = Completed 0 []"
  "write_manifest demo_env = None" "getsize demo_env p = Inr 1024"
  "mkdtemp timeout_env = Inr ''/tmp/tmpx''" "run_outcome timeout_env n = RunRaises TimeoutExpired"
  "mkdtemp second_fails_env = Inr ''/tmp/tmpx''"
  "run_outcome second_fails_env n = (if n = 1 then Completed 1 ''boom'' else Completed 0 [])"
  by (simp_all add: demo_env_def timeout_env_def second_fails_env_def)

lemma zero_pad_two: "zero_pad 4 (Suc (Suc 0)) = ''0002''"
  by code_simp

lemma eval_single_copy:
  "handle_export demo_env (demo_request [float_range 10 30] False)
   = ((200, Success ''/v/video_cut.mp4'' 1024),
      \<lparr> run_calls =
          [[''ffmpeg'', ''-y'', ''-ss'', ''10.0000'', ''-i'', ''/v/video.mp4'', ''-t'', ''20.0000'',
            ''-c'', ''copy'', ''-avoid_negative_ts'', ''make_zero'', ''/v/video_cut.mp4'']],
        temp_dirs = [], files_written = [] \<rparr>)"
  by (simp add: handle_export_def export_try_def export_branch_def export_single_def
      demo_paths demo_request_fields demo_env_fields no_effects_def
      segment_cmd_whole str_nat_examples codec_args_def subprocess_run_def)

lemma eval_single_flip:
  "handle_export demo_env (demo_request [float_range 10 30] True)
   = ((200, Success ''/v/video_cut.mp4'' 1024),
      \<lparr> run_calls =
          [[''ffmpeg'', ''-y'', ''-ss'', ''10.0000'', ''-i'', ''/v/video.mp4'', ''-t'', ''20.0000'',
            ''-vf'', ''vflip'', ''-c:v'', ''libx264'', ''-preset'', ''medium'', ''-crf'', ''18'',
            ''-c:a'', ''copy'', ''-avoid_negative_ts'', ''make_zero'', ''/v/video_cut.mp4'']],
        temp_dirs = [], files_written = [] \<rparr>)"
  by (simp add: handle_export_def export_try_def export_branch_def export_single_def
      demo_paths demo_request_fields demo_env_fields no_effects_def
      segment_cmd_whole str_nat_examples codec_args_def subprocess_run_def)

lemma eval_inverted:
  "handle_export demo_env (demo_request [float_range 5 3] False)
   = ((200, Success ''/v/video_cut.mp4'' 1024),
      \<lparr> run_calls =
          [[''ffmpeg'', ''-y'', ''-ss'', ''5.0000'', ''-i'', ''/v/video.mp4'', ''-t'', ''-2.0000'',
            ''-c'', ''copy'', ''-avoid_negative_ts'', ''make_zero'', ''/v/video_cut.mp4'']],
        temp_dirs = [], files_written = [] \<rparr>)"
  by (simp add: handle_export_def export_try_def export_branch_def export_single_def
      demo_paths demo_request_fields demo_env_fields no_effects_def
      segment_cmd_whole str_nat_examples codec_args_def subprocess_run_def)

lemma eval_timeout:
  "handle_export timeout_env (demo_request [float_range 0 10, float_range 20 30] False)
   = ((500, TimedOut),
      \<lparr> run_calls =
          [[''ffmpeg'', ''-y'', ''-ss'', ''0.0000'', ''-i'', ''/v/video.mp4'', ''-t'', ''10.0000'',
            ''-c'', ''copy'', ''-avoid_negative_ts'', ''make_zero'', ''-f'', ''mpegts'',
            ''/tmp/tmpx/seg_0000.ts'']],
        temp_dirs = [''/tmp/tmpx''], files_written = [] \<rparr>)"
  by (simp add: handle_export_def export_try_def export_branch_def export_multi_def
      demo_paths demo_request_fields demo_env_fields no_effects_def
      segment_cmd_whole str_nat_examples zero_pad_examples path_join_def codec_args_def
      subprocess_run_def except_response_def)

lemma eval_three_segments:
  "handle_export demo_env
     (demo_request [float_range 0 10, float_range 20 30, float_range 40 50] False)
   = ((200, Success ''/v/video_cut.mp4'' 1024),
      \<lparr> run_calls =
          [[''ffmpeg'', ''-y'', ''-ss'', ''0.0000'', ''-i'', ''/v/video.mp4'', ''-t'', ''10.0000'',
            ''-c'', ''copy'', ''-avoid_negative_ts'', ''make_zero'', ''-f'', ''mpegts'',
            ''/tmp/tmpx/seg_0000.ts''],
           [''ffmpeg'', ''-y'', ''-ss'', ''20.0000'', ''-i'', ''/v/video.mp4'', ''-t'', ''10.0000'',
            ''-c'', ''copy'', ''-avoid_negative_ts'', ''make_zero'', ''-f'', ''mpegts'',
            ''/tmp/tmpx/seg_0001.ts''],
           [''ffmpeg'', ''-y'', ''-ss'', ''40.0000'', ''-i'', ''/v/video.mp4'', ''-t'', ''10.0000'',
            ''-c'', ''copy'', ''-avoid_negative_ts'', ''make_zero'', ''-f'', ''mpegts'',
            ''/tmp/tmpx/seg_0002.ts''],
           [''ffmpeg'', ''-y'', ''-f'', ''concat'', ''-safe'', ''0'', ''-i'',
            ''/tmp/tmpx/concat.txt'', ''-c'', ''copy'', ''/v/video_cut.mp4'']],
        temp_dirs = [],
        files_written =
          [(''/tmp/tmpx/concat.txt'',
            manifest_text [''/tmp/tmpx/seg_0000.ts'', ''/tmp/tmpx/seg_0001.ts'',
                           ''/tmp/tmpx/seg_0002.ts''])] \<rparr>)"
  by (simp add: handle_export_def export_try_def export_branch_def export_multi_def
      demo_paths demo_request_fields demo_env_fields no_effects_def
      segment_cmd_whole str_nat_examples zero_pad_examples zero_pad_two path_join_def
      codec_args_def subprocess_run_def rmtree_def concat_cmd_def Let_def)

subsection \<open>How close rounding, conversion, subtraction and formatting are\<close>

lemma round_binary64_error:
  assumes "0 < m" and "round_binary64 m = Some r"
  shows "0 \<le> r" and "\<bar>r - m\<bar> \<le> pow2 (max (ilog2 m) (- 1022) - 53)"
proof -
  define e where "e = max (ilog2 m) (- 1022)"
  define q where "q = pow2 (e - 52)"
  define z where "z = round_half_even (m / q)"
  have qpos: "0 < q" unfolding q_def by (rule pow2_pos)
  from assms have r: "r = of_int z * q"
    by (auto simp: round_binary64_def Let_def e_def[symmetric] q_def[symmetric]
        z_def[symmetric] split: if_splits)
  from assms(1) qpos have "0 \<le> m / q" by simp
  then have "0 \<le> z" unfolding z_def by (rule round_half_even_nonneg)
  with qpos show "0 \<le> r" by (simp add: r)
  have c: "\<bar>of_int z - m / q\<bar> \<le> 1 / 2" unfolding z_def by (rule round_half_even_close)
  have "r - m = (of_int z - m / q) * q" using qpos by (simp add: r field_simps)
  then have "\<bar>r - m\<bar> = \<bar>of_int z - m / q\<bar> * q" using qpos by (simp add: abs_mult)
  also have "\<dots> \<le> (1 / 2) * q" using c qpos by (simp only: mult_le_cancel_right_pos)
  also have "\<dots> = pow2 (e - 53)" using pow2_half[of "e - 53"] by (simp add: q_def)
  finally show "\<bar>r - m\<bar> \<le> pow2 (max (ilog2 m) (- 1022) - 53)" by (simp only: e_def)
qed

lemma pow2_shift_53: "pow2 (e - 53) = pow2 e / 2 ^ 53"
proof -
  have "pow2 (e - 53) = power_int 2 e / power_int 2 53"
    unfolding pow2_power_int by (rule power_int_diff) simp
  then show ?thesis by (simp add: pow2_power_int)
qed

lemma round_binary64_relative_error:
  assumes "0 < m" and "round_binary64 m = Some r"
  shows "\<bar>r - m\<bar> \<le> max (m / 2 ^ 53) (pow2 (- 1075))"
proof (cases "- 1022 \<le> ilog2 m")
  case True
  then have "max (ilog2 m) (- 1022) = ilog2 m" by simp
  with round_binary64_error(2)[OF assms] have "\<bar>r - m\<bar> \<le> pow2 (ilog2 m - 53)" by simp
  also have "\<dots> = pow2 (ilog2 m) / 2 ^ 53" by (rule pow2_shift_53)
  also have "\<dots> \<le> m / 2 ^ 53"
    using pow2_ilog2_le[OF assms(1)] by (simp add: divide_right_mono)
  finally have "\<bar>r - m\<bar> \<le> m / 2 ^ 53" .
  then show ?thesis by (rule max.coboundedI1)
next
  case False
  then have "max (ilog2 m) (- 1022) = - 1022" by simp
  with round_binary64_error(2)[OF assms] have "\<bar>r - m\<bar> \<le> pow2 (- 1075)" by simp
  then show ?thesis by (rule max.coboundedI2)
qed

lemma int_to_float_small:
  assumes "\<bar>n\<bar> < 2 ^ 53"
  shows "int_to_float n = Inr (Finite (n < 0) (of_int \<bar>n\<bar>))"
proof -
  from assms have "nat \<bar>n\<bar> < 2 ^ 53" by (simp add: nat_less_iff)
  from round_binary64_of_nat[OF this] show ?thesis
    by (simp add: int_to_float_def)
qed

lemma int_to_float_close:
  assumes "int_to_float n = Inr f"
  shows "\<exists>r. f = Finite (n < 0) r \<and> 0 \<le> r \<and> \<bar>r - \<bar>of_int n\<bar>\<bar> \<le> conversion_slack (PyInt n)"
proof (cases "\<bar>n\<bar> < 2 ^ 53")
  case True
  with int_to_float_small[OF True] assms show ?thesis by auto
next
  case False
  then have big: "2 ^ 53 \<le> \<bar>n\<bar>" by simp
  then have npos: "0 < nat \<bar>n\<bar>" by simp
  define m :: rat where "m = of_int \<bar>n\<bar>"
  have mn: "m = of_nat (nat \<bar>n\<bar>)" by (simp add: m_def)
  from npos have mpos: "0 < m" by (simp add: m_def)
  from assms obtain r where r: "round_binary64 m = Some r" "f = Finite (n < 0) r"
    by (auto simp: int_to_float_def m_def split: option.splits)
  from ilog2_of_nat(1,2)[OF npos] have "0 \<le> ilog2 m" by (simp add: mn)
  then have e: "max (ilog2 m) (- 1022) = ilog2 m" by simp
  from round_binary64_error[OF mpos r(1)] have "0 \<le> r" "\<bar>r - m\<bar> \<le> pow2 (ilog2 m - 53)"
    by (simp_all add: e)
  moreover have "pow2 (ilog2 m - 53) \<le> m / 2 ^ 53"
    using pow2_ilog2_le[OF mpos] by (simp add: pow2_shift_53 divide_right_mono)
  ultimately have "0 \<le> r" "\<bar>r - m\<bar> \<le> m / 2 ^ 53" by simp_all
  with r(2) False show ?thesis by (simp add: m_def)
qed

lemma float_sub_close:
  assumes "float_sub (Finite sb b) (Finite sa a) = Finite s r"
  shows "0 \<le> r"
    and "\<bar>signed s r - (signed sb b - signed sa a)\<bar>
           \<le> max (\<bar>signed sb b - signed sa a\<bar> / 2 ^ 53) (pow2 (- 1075))"
proof -
  define d where "d = signed sb b - signed sa a"
  have bound_pos: "0 \<le> max (\<bar>d\<bar> / 2 ^ 53) (pow2 (- 1075))"
    using pow2_pos[of "- 1075"] by simp
  have "0 \<le> r \<and> \<bar>signed s r - d\<bar> \<le> max (\<bar>d\<bar> / 2 ^ 53) (pow2 (- 1075))"
  proof (cases "d = 0")
    case True
    with assms have "r = 0" by (simp add: d_def)
    with True bound_pos show ?thesis by (simp add: signed_def)
  next
    case False
    then have pos: "0 < \<bar>d\<bar>" by simp
    from assms False have rb: "round_binary64 \<bar>d\<bar> = Some r" and s: "s = (d < 0)"
      by (auto simp: d_def[symmetric] float_of_rat_def split: option.splits)
    from round_binary64_error(1)[OF pos rb] have r0: "0 \<le> r" .
    from round_binary64_relative_error[OF pos rb]
    have "\<bar>r - \<bar>d\<bar>\<bar> \<le> max (\<bar>d\<bar> / 2 ^ 53) (pow2 (- 1075))" .
    moreover have "\<bar>signed s r - d\<bar> = \<bar>r - \<bar>d\<bar>\<bar>"
      by (cases "d < 0") (simp_all add: s signed_def)
    ultimately show ?thesis using r0 by simp
  qed
  then show "0 \<le> r"
    and "\<bar>signed s r - (signed sb b - signed sa a)\<bar>
           \<le> max (\<bar>signed sb b - signed sa a\<bar> / 2 ^ 53) (pow2 (- 1075))"
    by (simp_all add: d_def)
qed

lemma hd_format_4f: "(format_4f (Finite s m) \<noteq> [] \<and> hd (format_4f (Finite s m)) = CHR ''-'') = s"
proof -
  define N where "N = nat (round_half_even (m * 10000)) div 10000"
  obtain c cs where c: "str_nat N = c # cs"
    using str_nat_nonempty[of N] by (cases "str_nat N") auto
  with str_nat_digits[of N] have "is_digit c" by simp
  then have "c \<noteq> CHR ''-''" by (auto simp: is_digit_def)
  with c show ?thesis by (cases s) (simp_all add: N_def[symmetric])
qed

lemma text_value_format_4f:
  "text_value (format_4f (Finite s m)) = signed s (decimal_magnitude (format_4f (Finite s m)))"
  unfolding text_value_def hd_format_4f by (simp add: signed_def)

lemma format_4f_text_close:
  assumes "0 \<le> m"
  shows "\<bar>text_value (format_4f (Finite s m)) - signed s m\<bar> \<le> 1 / 20000"
proof -
  have "\<bar>signed s x - signed s m\<bar> = \<bar>x - m\<bar>" for x
    by (cases s) (simp_all add: signed_def)
  with format_4f_accurate[OF assms, of s] show ?thesis
    by (simp only: text_value_format_4f)
qed

lemma num_format_4f_close:
  assumes "is_finite x" and "well_formed x" and "num_format_4f x = Inr s"
  shows "\<bar>text_value s - num_value x\<bar> \<le> 1 / 20000 + conversion_slack x"
proof (cases x)
  case (PyInt n)
  with assms(3) obtain f where f: "int_to_float n = Inr f" "s = format_4f f"
    by (auto split: sum.splits)
  from int_to_float_close[OF f(1)] obtain r where r: "f = Finite (n < 0) r" "0 \<le> r"
    "\<bar>r - \<bar>of_int n\<bar>\<bar> \<le> conversion_slack (PyInt n)"
    by blast
  have nv: "(of_int n :: rat) = signed (n < 0) \<bar>of_int n\<bar>"
    by (simp add: signed_def)
  have "\<bar>text_value s - signed (n < 0) r\<bar> \<le> 1 / 20000"
    unfolding f(2) r(1) using r(2) by (rule format_4f_text_close)
  moreover have "\<bar>signed (n < 0) r - signed (n < 0) \<bar>of_int n\<bar>\<bar> = \<bar>r - \<bar>of_int n\<bar>\<bar>"
    by (cases "n < 0") (simp_all add: signed_def)
  ultimately have "\<bar>text_value s - signed (n < 0) \<bar>of_int n\<bar>\<bar>
                     \<le> 1 / 20000 + conversion_slack (PyInt n)"
    using r(3) by linarith
  with PyInt nv show ?thesis by simp
next
  case (PyFloat f)
  with assms(1) obtain sg m where fm: "f = Finite sg m" by (cases f) auto
  with PyFloat assms(2) have m: "0 \<le> m" by simp
  from PyFloat fm assms(3) have s: "s = format_4f (Finite sg m)" by simp
  from format_4f_text_close[OF m, of sg] PyFloat fm s show ?thesis by simp
qed

lemma num_format_4f_small_int:
  assumes "\<bar>n\<bar> < 2 ^ 53"
  shows "num_format_4f (PyInt n)
           = Inr ((if n < 0 then ''-'' else []) @ str_nat (nat \<bar>n\<bar>) @ ''.0000'')"
proof -
  have "(of_int \<bar>n\<bar> :: rat) = of_nat (nat \<bar>n\<bar>)" by simp
  then show ?thesis
    using format_4f_whole[of "n < 0" "nat \<bar>n\<bar>"]
    by (simp add: int_to_float_small[OF assms] del: format_4f.simps of_nat_nat)
qed

lemma sub_close_aux:
  fixes v va vb va' vb' ca cb p K :: rat
  assumes "0 < K"
    and "\<bar>vb' - vb\<bar> \<le> cb" and "\<bar>va' - va\<bar> \<le> ca"
    and "\<bar>v - (vb' - va')\<bar> \<le> max (\<bar>vb' - va'\<bar> / K) p"
  shows "\<bar>v - (vb - va)\<bar> \<le> ca + cb + max ((\<bar>vb - va\<bar> + ca + cb) / K) p"
proof -
  have "\<bar>vb' - va'\<bar> \<le> \<bar>vb - va\<bar> + ca + cb" using assms(2,3) by linarith
  then have "\<bar>vb' - va'\<bar> / K \<le> (\<bar>vb - va\<bar> + ca + cb) / K"
    using assms(1) by (simp add: divide_right_mono)
  then have "max (\<bar>vb' - va'\<bar> / K) p \<le> max ((\<bar>vb - va\<bar> + ca + cb) / K) p"
    by (rule max.mono) simp
  moreover have "\<bar>v - (vb - va)\<bar> \<le> \<bar>v - (vb' - va')\<bar> + ca + cb"
    using assms(2,3) by linarith
  ultimately show ?thesis using assms(4) by linarith
qed

lemma int_to_float_value:
  assumes "int_to_float n = Inr f"
  shows "\<exists>s r. f = Finite s r \<and> 0 \<le> r \<and> \<bar>signed s r - of_int n\<bar> \<le> conversion_slack (PyInt n)"
proof -
  from int_to_float_close[OF assms] obtain r where r: "f = Finite (n < 0) r" "0 \<le> r"
    "\<bar>r - \<bar>of_int n\<bar>\<bar> \<le> conversion_slack (PyInt n)"
    by blast
  have "\<bar>signed (n < 0) r - of_int n\<bar> = \<bar>r - \<bar>of_int n\<bar>\<bar>"
    by (cases "n < 0") (simp_all add: signed_def)
  with r show ?thesis by auto
qed

lemma conversion_slack_nonneg: "0 \<le> conversion_slack x"
  by (cases x) simp_all

lemma float_sub_value:
  assumes "float_sub (Finite sb b') (Finite sa a') = f" and "is_finite (PyFloat f)"
    and "\<bar>signed sb b' - vb\<bar> \<le> cb" and "\<bar>signed sa a' - va\<bar> \<le> ca"
  shows "well_formed (PyFloat f)
       \<and> \<bar>num_value (PyFloat f) - (vb - va)\<bar>
           \<le> ca + cb + max ((\<bar>vb - va\<bar> + ca + cb) / 2 ^ 53) (pow2 (- 1075))"
proof -
  from assms(2) obtain s r where f: "f = Finite s r" by (cases f) auto
  from float_sub_close[OF assms(1)[unfolded f]]
  have r: "0 \<le> r"
    and c: "\<bar>signed s r - (signed sb b' - signed sa a')\<bar>
              \<le> max (\<bar>signed sb b' - signed sa a'\<bar> / 2 ^ 53) (pow2 (- 1075))"
    by blast+
  have "(0::rat) < 2 ^ 53" by simp
  from sub_close_aux[OF this assms(3,4) c] r show ?thesis
    unfolding f by (simp del: float_sub.simps)
qed

lemma num_sub_close:
  assumes "is_finite y" and "is_finite z" and "well_formed y" and "well_formed z"
    and "num_sub z y = Inr w" and "is_finite w"
  shows "well_formed w
       \<and> \<bar>num_value w - (num_value z - num_value y)\<bar>
           \<le> conversion_slack y + conversion_slack z
             + max ((\<bar>num_value z - num_value y\<bar> + conversion_slack y + conversion_slack z)
                      / 2 ^ 53) (pow2 (- 1075))"
proof -
  have p: "(0::rat) \<le> pow2 (- 1075)" using pow2_pos[of "- 1075"] by simp
  show ?thesis
  proof (cases z)
    case zi: (PyInt b)
    show ?thesis
    proof (cases y)
      case yi: (PyInt a)
      with zi assms(5) have w: "w = PyInt (b - a)" by simp
      have "0 \<le> conversion_slack y + conversion_slack z
             + max ((\<bar>num_value z - num_value y\<bar> + conversion_slack y + conversion_slack z)
                      / 2 ^ 53) (pow2 (- 1075))"
        using conversion_slack_nonneg[of y] conversion_slack_nonneg[of z] p
        by (simp add: add_nonneg_nonneg max.coboundedI2)
      then show ?thesis by (simp add: w zi yi del: conversion_slack.simps)
    next
      case yf: (PyFloat fy)
      with assms(1) obtain sa a where fy: "fy = Finite sa a" by (cases fy) auto
      from zi yf assms(5) obtain fz where fz: "int_to_float b = Inr fz"
        and w: "w = PyFloat (float_sub fz fy)"
        by (auto split: sum.splits)
      from int_to_float_value[OF fz] obtain sb b' where b': "fz = Finite sb b'"
        "\<bar>signed sb b' - of_int b\<bar> \<le> conversion_slack (PyInt b)"
        by blast
      have "\<bar>signed sa a - signed sa a\<bar> \<le> (0::rat)" by simp
      from float_sub_value[OF refl assms(6)[unfolded w b'(1) fy] b'(2) this]
      show ?thesis unfolding w b'(1) fy zi yf
        by (simp del: float_sub.simps conversion_slack.simps(1) add: add.commute)
    qed
  next
    case zf: (PyFloat fz)
    with assms(2) obtain sb b where fz: "fz = Finite sb b" by (cases fz) auto
    show ?thesis
    proof (cases y)
      case yi: (PyInt a)
      from zf yi assms(5) obtain fy where fy: "int_to_float a = Inr fy"
        and w: "w = PyFloat (float_sub fz fy)"
        by (auto split: sum.splits)
      from int_to_float_value[OF fy] obtain sa a' where a': "fy = Finite sa a'"
        "\<bar>signed sa a' - of_int a\<bar> \<le> conversion_slack (PyInt a)"
        by blast
      have "\<bar>signed sb b - signed sb b\<bar> \<le> (0::rat)" by simp
      from float_sub_value[OF refl assms(6)[unfolded w a'(1) fz] this a'(2)]
      show ?thesis unfolding w a'(1) fz zf yi
        by (simp del: float_sub.simps conversion_slack.simps(1))
    next
      case yf: (PyFloat fy)
      with assms(1) obtain sa a where fy: "fy = Finite sa a" by (cases fy) auto
      from zf yf assms(5) have w: "w = PyFloat (float_sub fz fy)" by simp
      have "\<bar>signed sb b - signed sb b\<bar> \<le> (0::rat)" "\<bar>signed sa a - signed sa a\<bar> \<le> (0::rat)"
        by simp_all
      from float_sub_value[OF refl assms(6)[unfolded w fz fy] this]
      show ?thesis unfolding w fz fy zf yf
        by (simp del: float_sub.simps)
    qed
  qed
qed

lemma int_to_float_in_range:
  assumes "\<bar>of_int n\<bar> < pow2 1024 - pow2 970"
  shows "\<exists>f. int_to_float n = Inr f"
proof (cases "n = 0")
  case True
  then show ?thesis using int_to_float_small[of 0] by simp
next
  case False
  then have "(0::rat) < of_int \<bar>n\<bar>" by simp
  moreover from assms have "(of_int \<bar>n\<bar> :: rat) < pow2 1024 - pow2 970" by simp
  ultimately obtain r where "round_binary64 (of_int \<bar>n\<bar>) = Some r"
    using round_binary64_in_range by blast
  then show ?thesis by (simp add: int_to_float_def)
qed

lemma segment_cmd_int:
  assumes "\<bar>a\<bar> < 2 ^ 53" and "\<bar>b - a\<bar> < 2 ^ 53"
  shows "segment_cmd src (int_range a b) flip tail
           = Inr ([''ffmpeg'', ''-y'', ''-ss'',
                   (if a < 0 then ''-'' else []) @ str_nat (nat \<bar>a\<bar>) @ ''.0000'', ''-i'', src, ''-t'',
                   (if b < a then ''-'' else []) @ str_nat (nat \<bar>b - a\<bar>) @ ''.0000'']
                  @ codec_args flip @ [''-avoid_negative_ts'', ''make_zero''] @ tail)"
  using num_format_4f_small_int[OF assms(1)] num_format_4f_small_int[OF assms(2)]
  by (simp add: segment_cmd_def int_range_def del: num_format_4f.simps)

lemma eval_single_int:
  "handle_export demo_env (demo_request [int_range 10 30] False)
   = ((200, Success ''/v/video_cut.mp4'' 1024),
      \<lparr> run_calls =
          [[''ffmpeg'', ''-y'', ''-ss'', ''10.0000'', ''-i'', ''/v/video.mp4'', ''-t'', ''20.0000'',
            ''-c'', ''copy'', ''-avoid_negative_ts'', ''make_zero'', ''/v/video_cut.mp4'']],
        temp_dirs = [], files_written = [] \<rparr>)"
  by (simp add: handle_export_def export_try_def export_branch_def export_single_def
      demo_paths demo_request_fields demo_env_fields no_effects_def
      segment_cmd_int str_nat_examples codec_args_def subprocess_run_def)

section \<open>The media server\<close>

lemma serve_video_partial:
  assumes "files file_path = Some content"
    and "parse_range h (int (length content)) = Inr (start, end)"
  shows "serve_video files guess_type (Some h) file_path
           = Sent (serve_partial (content_type_of guess_type file_path) content start end)"
  using assms parse_range_header_nonempty[OF assms(2)] by (simp add: serve_video_def)

lemma body_serve_partial:
  "body (serve_partial ct content start end)
     = take (nat (end - start + 1)) (drop (nat start) content)"
  by (simp add: serve_partial_def send_range_eq Let_def)

lemma demo_files_lengths:
  "length ten_bytes = 10" "length thousand_bytes = 1000"
  by (simp_all add: ten_bytes_def thousand_bytes_def)

lemma parse_examples:
  "parse_range ''bytes=200-299'' 1000 = Inr (200, 299)"
  "parse_range ''bytes=5-20'' 10 = Inr (5, 20)"
  by code_simp+

text \<open>
  Claim C3, as amended. On an existing file, a range request whose parsed range
  \<open>[start, end]\<close> lies within the file (\<open>start \<le> end < size\<close>) is answered with status 206,
  a \<^verbatim>\<open>Content-Range\<close> that declares the total file size, and a body of exactly
  \<open>end - start + 1\<close> bytes, the bytes of the file from offset \<open>start\<close>; a header
  \<^verbatim>\<open>bytes=N-\<close> with the end omitted is parsed with \<open>end = size - 1\<close>; and a request
  without a range is answered with status 200, the exact file length declared, and
  the whole file as body.
\<close>

theorem range_request_within_file:
  assumes "files file_path = Some content"
  shows "(parse_range h (int (length content)) = Inr (start, end)
            \<and> start \<le> end \<and> end < int (length content) \<longrightarrow>
          (\<exists>r. serve_video files guess_type (Some h) file_path = Sent r
             \<and> status r = 206
             \<and> map_of (headers r) ''Content-Range''
                 = Some (''bytes '' @ str_int start @ ''-'' @ str_int end @ ''/''
                          @ str_int (int (length content)))
             \<and> map_of (headers r) ''Content-Length'' = Some (str_int (end - start + 1))
             \<and> body r = take (nat (end - start + 1)) (drop (nat start) content)
             \<and> int (length (body r)) = end - start + 1))
       \<and> (ds \<noteq> [] \<and> list_all is_digit ds \<and> length ds \<le> int_max_str_digits \<longrightarrow>
          parse_range (''bytes='' @ ds @ ''-'') (int (length content))
            = Inr (int (nat_of_digits ds), int (length content) - 1))
       \<and> (\<exists>r. serve_video files guess_type None file_path = Sent r
             \<and> status r = 200
             \<and> map_of (headers r) ''Content-Length'' = Some (str_int (int (length content)))
             \<and> body r = content)"
proof (intro conjI impI)
  assume a: "parse_range h (int (length content)) = Inr (start, end)
               \<and> start \<le> end \<and> end < int (length content)"
  then have p: "parse_range h (int (length content)) = Inr (start, end)" by simp
  have nonneg: "0 \<le> start" using p by (rule parse_range_start_nonneg)
  let ?r = "serve_partial (content_type_of guess_type file_path) content start end"
  have "serve_video files guess_type (Some h) file_path = Sent ?r"
    using assms p by (rule serve_video_partial)
  moreover have "status ?r = 206"
    by (simp add: serve_partial_def Let_def)
  moreover have "map_of (headers ?r) ''Content-Range''
      = Some (''bytes '' @ str_int start @ ''-'' @ str_int end @ ''/''
               @ str_int (int (length content)))"
    by (simp add: serve_partial_def Let_def)
  moreover have "map_of (headers ?r) ''Content-Length'' = Some (str_int (end - start + 1))"
    by (simp add: serve_partial_def Let_def)
  moreover have b: "body ?r = take (nat (end - start + 1)) (drop (nat start) content)"
    by (rule body_serve_partial)
  moreover have "int (length (body ?r)) = end - start + 1"
  proof -
    have "nat (end - start + 1) \<le> length content - nat start"
      using a nonneg by arith
    then show ?thesis
      unfolding b using a nonneg by (simp add: min_absorb2)
  qed
  ultimately show "\<exists>r. serve_video files guess_type (Some h) file_path = Sent r
             \<and> status r = 206
             \<and> map_of (headers r) ''Content-Range''
                 = Some (''bytes '' @ str_int start @ ''-'' @ str_int end @ ''/''
                          @ str_int (int (length content)))
             \<and> map_of (headers r) ''Content-Length'' = Some (str_int (end - start + 1))
             \<and> body r = take (nat (end - start + 1)) (drop (nat start) content)
             \<and> int (length (body r)) = end - start + 1"
    by blast
next
  assume "ds \<noteq> [] \<and> list_all is_digit ds \<and> length ds \<le> int_max_str_digits"
  then have "ds \<noteq> []" "list_all is_digit ds" "length ds \<le> int_max_str_digits"
    by simp_all
  then show "parse_range (''bytes='' @ ds @ ''-'') (int (length content))
            = Inr (int (nat_of_digits ds), int (length content) - 1)"
    by (rule parse_range_open_end)
next
  let ?r = "serve_full (content_type_of guess_type file_path) content"
  have "serve_video files guess_type None file_path = Sent ?r"
    using assms by (simp add: serve_video_def)
  moreover have "status ?r = 200"
    and "map_of (headers ?r) ''Content-Length'' = Some (str_int (int (length content)))"
    and "body ?r = content"
    by (simp_all add: serve_full_def send_all_eq)
  ultimately show "\<exists>r. serve_video files guess_type None file_path = Sent r
             \<and> status r = 200
             \<and> map_of (headers r) ''Content-Length'' = Some (str_int (int (length content)))
             \<and> body r = content"
    by blast
qed

text \<open>The thousand-byte file: bytes 200 to 299 are a hundred bytes with status 206 and
  a declared total of 1000; \<^verbatim>\<open>bytes=200-\<close> runs to byte 999; no range gives all of it.\<close>

theorem range_request_within_file_witness:
  "(\<exists>r. serve_video demo_files no_guess (Some ''bytes=200-299'') ''/v/thousand.mp4'' = Sent r
      \<and> status r = 206
      \<and> map_of (headers r) ''Content-Range'' = Some ''bytes 200-299/1000''
      \<and> map_of (headers r) ''Content-Length'' = Some ''100''
      \<and> body r = map of_nat [200..<300]
      \<and> length (body r) = 100)
   \<and> parse_range ''bytes=200-'' 1000 = Inr (200, 999)
   \<and> (\<exists>r. serve_video demo_files no_guess None ''/v/thousand.mp4'' = Sent r
      \<and> status r = 200
      \<and> map_of (headers r) ''Content-Length'' = Some ''1000''
      \<and> length (body r) = 1000)"
proof -
  have f: "demo_files ''/v/thousand.mp4'' = Some thousand_bytes"
    by (simp add: demo_files_def)
  have s: "str_int 200 = ''200''" "str_int 299 = ''299''" "str_int 1000 = ''1000''"
    "str_int 100 = ''100''"
    by code_simp+
  have d: "''200'' \<noteq> [] \<and> list_all is_digit ''200'' \<and> length ''200'' \<le> int_max_str_digits"
    by code_simp
  have n: "nat_of_digits ''200'' = 200" by code_simp
  have t: "take 100 (drop 200 thousand_bytes) = map of_nat [200..<300]"
    by (simp add: thousand_bytes_def drop_map take_map)
  show ?thesis
    using range_request_within_file[where files = demo_files
        and file_path = "''/v/thousand.mp4''" and content = thousand_bytes
        and h = "''bytes=200-299''" and start = 200 and ?end = 299 and ds = "''200''"
        and guess_type = no_guess, OF f]
      parse_examples(1) d
    by (auto simp add: demo_files_lengths s n t)
qed

text \<open>
  Claim C3 as stated fails where the requested end lies beyond the file: for
  \<^verbatim>\<open>bytes=5-20\<close> on the ten-byte file the answer is 206 with a declared length of 16,
  and the body holds five bytes, not \<open>end - start + 1 = 16\<close>.
\<close>

theorem range_request_beyond_file_counterexample:
  "parse_range ''bytes=5-20'' 10 = Inr (5, 20)
   \<and> serve_video demo_files no_guess (Some ''bytes=5-20'') ''/v/ten.mp4''
       = Sent \<lparr> status = 206,
                headers = [(''Content-Type'', ''video/mp4''),
                           (''Content-Range'', ''bytes 5-20/10''),
                           (''Content-Length'', ''16''),
                           (''Accept-Ranges'', ''bytes'')],
                body = [5, 6, 7, 8, 9] \<rparr>
   \<and> int (length [5, 6, 7, 8, 9 :: byte]) \<noteq> 20 - 5 + 1"
proof -
  have f: "demo_files ''/v/ten.mp4'' = Some ten_bytes"
    by (simp add: demo_files_def)
  have s: "str_int 5 = ''5''" "str_int 20 = ''20''" "str_int 10 = ''10''" "str_int 16 = ''16''"
    by code_simp+
  have p: "parse_range ''bytes=5-20'' (int (length ten_bytes)) = Inr (5, 20)"
    using parse_examples(2) by (simp add: demo_files_lengths)
  show ?thesis
    using serve_video_partial[where files = demo_files and file_path = "''/v/ten.mp4''"
        and content = ten_bytes and guess_type = no_guess, OF f p] parse_examples(2)
    by (simp add: serve_partial_def send_range_eq content_type_of_def no_guess_def
        demo_files_lengths s ten_bytes_def)
qed





section \<open>The output name\<close>

lemma splitext_append: "splitext p = (stem, ext) \<Longrightarrow> stem @ ext = p"
  by (auto simp: splitext_def Let_def split: if_splits)

lemma choose_output_path_first_free:
  assumes "splitext (basename src) = (base, ext)"
  shows "\<exists>n. choose_output_path paths src out_dir = candidate_path out_dir base ext n
           \<and> candidate_path out_dir base ext n \<notin> set paths
           \<and> (\<forall>j<n. candidate_path out_dir base ext j \<in> set paths)"
proof -
  let ?first = "path_join out_dir (base @ ''_cut'' @ ext)"
  have chosen: "choose_output_path paths src out_dir = find_free paths out_dir base ext 1 ?first"
    using assms by (simp add: choose_output_path_def)
  show ?thesis
  proof (cases "?first \<in> set paths")
    case False
    then have "find_free paths out_dir base ext 1 ?first = ?first"
      by (subst find_free.simps) simp
    with chosen False show ?thesis
      by (intro exI[of _ 0]) (simp add: candidate_path_def)
  next
    case True
    from find_free_numbered[OF True, where out_dir = out_dir and base = base and ext = ext
        and counter = 1]
    obtain k where k: "1 \<le> k"
      "find_free paths out_dir base ext 1 ?first = numbered_path out_dir base ext k"
      "numbered_path out_dir base ext k \<notin> set paths"
      "\<forall>j. 1 \<le> j \<and> j < k \<longrightarrow> numbered_path out_dir base ext j \<in> set paths"
      by blast
    have "\<forall>j<k. candidate_path out_dir base ext j \<in> set paths"
    proof (intro allI impI)
      fix j assume "j < k"
      show "candidate_path out_dir base ext j \<in> set paths"
      proof (cases "j = 0")
        case True
        with \<open>?first \<in> set paths\<close> show ?thesis by (simp add: candidate_path_def)
      next
        case False
        with \<open>j < k\<close> k(4) show ?thesis by (simp add: candidate_path_def)
      qed
    qed
    with k chosen show ?thesis
      by (intro exI[of _ k]) (simp add: candidate_path_def)
  qed
qed

text \<open>
  Claim C4. With \<open>(base, ext)\<close> the stem and the extension of the source's file name,
  the chosen output path is the first name of the sequence \<^verbatim>\<open><stem>_cut<ext>\<close>,
  \<^verbatim>\<open><stem>_cut_1<ext>\<close>, \<^verbatim>\<open><stem>_cut_2<ext>\<close>, ... in the output directory that does
  not exist: every earlier name exists and the chosen one does not. When the export
  is repeated while the earlier files (and the one just chosen) are still there, the
  name chosen next carries a strictly larger number. The path in a success answer of
  the handler is this chosen path, for the request's source and output directory and
  the paths existing when the handler runs.
\<close>

theorem output_name_first_free_and_monotone:
  assumes "splitext (basename src) = (base, ext)"
  shows "base @ ext = basename src
       \<and> (\<exists>n. choose_output_path paths src out_dir = candidate_path out_dir base ext n
             \<and> choose_output_path paths src out_dir \<notin> set paths
             \<and> (\<forall>j<n. candidate_path out_dir base ext j \<in> set paths)
             \<and> (\<forall>paths' n'.
                   set paths \<subseteq> set paths'
                   \<and> choose_output_path paths src out_dir \<in> set paths'
                   \<and> choose_output_path paths' src out_dir = candidate_path out_dir base ext n'
                   \<longrightarrow> n < n'))
       \<and> (fst (handle_export env req) = (200, Success p bytes)
            \<and> source req = src \<and> requested_output_dir req = out_dir \<and> existing env = paths
          \<longrightarrow> p = choose_output_path paths src out_dir)"
proof (intro conjI)
  show "base @ ext = basename src" using assms by (rule splitext_append)
next
  show "fst (handle_export env req) = (200, Success p bytes)
            \<and> source req = src \<and> requested_output_dir req = out_dir \<and> existing env = paths
          \<longrightarrow> p = choose_output_path paths src out_dir"
    using handle_export_success_path[of env req p bytes] by (auto simp: output_path_of_def)
next
  from choose_output_path_first_free[OF assms, where paths = paths and out_dir = out_dir]
  obtain n where n: "choose_output_path paths src out_dir = candidate_path out_dir base ext n"
    "candidate_path out_dir base ext n \<notin> set paths"
    "\<forall>j<n. candidate_path out_dir base ext j \<in> set paths"
    by blast
  have "n < n'"
    if sub: "set paths \<subseteq> set paths'"
      and kept: "choose_output_path paths src out_dir \<in> set paths'"
      and next_choice: "choose_output_path paths' src out_dir = candidate_path out_dir base ext n'"
    for paths' n'
  proof (rule ccontr)
    assume "\<not> n < n'"
    then have "n' \<le> n" by simp
    have "candidate_path out_dir base ext n' \<in> set paths'"
    proof (cases "n' = n")
      case True
      with kept n(1) show ?thesis by simp
    next
      case False
      with \<open>n' \<le> n\<close> have "n' < n" by simp
      with n(3) sub show ?thesis by blast
    qed
    moreover from choose_output_path_first_free[OF assms, where paths = paths' and out_dir = out_dir]
    have "choose_output_path paths' src out_dir \<notin> set paths'" by auto
    ultimately show False using next_choice by simp
  qed
  with n show "\<exists>n. choose_output_path paths src out_dir = candidate_path out_dir base ext n
             \<and> choose_output_path paths src out_dir \<notin> set paths
             \<and> (\<forall>j<n. candidate_path out_dir base ext j \<in> set paths)
             \<and> (\<forall>paths' n'.
                   set paths \<subseteq> set paths'
                   \<and> choose_output_path paths src out_dir \<in> set paths'
                   \<and> choose_output_path paths' src out_dir = candidate_path out_dir base ext n'
                   \<longrightarrow> n < n')"
    by (intro exI[of _ n]) auto
qed

text \<open>With \<^verbatim>\<open>video_cut.mp4\<close> present, exporting from \<^verbatim>\<open>video.mp4\<close> chooses
  \<^verbatim>\<open>video_cut_1.mp4\<close>, and with that present too, \<^verbatim>\<open>video_cut_2.mp4\<close>.\<close>

theorem output_name_first_free_and_monotone_witness:
  "splitext (basename ''/v/video.mp4'') = (''video'', ''.mp4'')
   \<and> choose_output_path [''/v/video_cut.mp4''] ''/v/video.mp4'' ''/v'' = ''/v/video_cut_1.mp4''
   \<and> choose_output_path [''/v/video_cut.mp4'', ''/v/video_cut_1.mp4''] ''/v/video.mp4'' ''/v''
       = ''/v/video_cut_2.mp4''
   \<and> candidate_path ''/v'' ''video'' ''.mp4'' 1 = ''/v/video_cut_1.mp4''
   \<and> candidate_path ''/v'' ''video'' ''.mp4'' 2 = ''/v/video_cut_2.mp4''
   \<and> (\<exists>n. choose_output_path [''/v/video_cut.mp4''] ''/v/video.mp4'' ''/v''
              = candidate_path ''/v'' ''video'' ''.mp4'' n
          \<and> choose_output_path [''/v/video_cut.mp4''] ''/v/video.mp4'' ''/v''
              \<notin> set [''/v/video_cut.mp4'']
          \<and> n < 2)"
proof -
  have s: "splitext (basename ''/v/video.mp4'') = (''video'', ''.mp4'')"
    by code_simp
  have c1: "choose_output_path [''/v/video_cut.mp4''] ''/v/video.mp4'' ''/v''
              = ''/v/video_cut_1.mp4''"
    by code_simp
  have c2: "choose_output_path [''/v/video_cut.mp4'', ''/v/video_cut_1.mp4'']
              ''/v/video.mp4'' ''/v'' = ''/v/video_cut_2.mp4''"
    by code_simp
  have k1: "candidate_path ''/v'' ''video'' ''.mp4'' 1 = ''/v/video_cut_1.mp4''"
    by code_simp
  have k2: "candidate_path ''/v'' ''video'' ''.mp4'' 2 = ''/v/video_cut_2.mp4''"
    by code_simp
  from output_name_first_free_and_monotone[OF s, where paths = "[''/v/video_cut.mp4'']"
      and out_dir = "''/v''"]
  obtain n where n:
    "choose_output_path [''/v/video_cut.mp4''] ''/v/video.mp4'' ''/v''
       = candidate_path ''/v'' ''video'' ''.mp4'' n"
    "choose_output_path [''/v/video_cut.mp4''] ''/v/video.mp4'' ''/v''
       \<notin> set [''/v/video_cut.mp4'']"
    "\<forall>paths' n'.
       set [''/v/video_cut.mp4''] \<subseteq> set paths'
       \<and> choose_output_path [''/v/video_cut.mp4''] ''/v/video.mp4'' ''/v'' \<in> set paths'
       \<and> choose_output_path paths' ''/v/video.mp4'' ''/v''
           = candidate_path ''/v'' ''video'' ''.mp4'' n'
       \<longrightarrow> n < n'"
    by blast
  have "n < 2"
    using n(3)[rule_format, of "[''/v/video_cut.mp4'', ''/v/video_cut_1.mp4'']" 2]
    by (simp add: c1 c2 k2)
  with n(1,2) s c1 c2 k1 k2 show ?thesis by blast
qed

section \<open>The export handler\<close>

text \<open>
  Claim C6. A request whose segment list is empty is answered with status 400 and the
  "no segments" error; no process is run, no temporary directory is created and no
  file is written.
\<close>

theorem empty_segments_rejected:
  assumes "segments req = []"
  shows "handle_export env req = ((400, NoSegments), no_effects)
       \<and> run_calls (snd (handle_export env req)) = []
       \<and> temp_dirs (snd (handle_export env req)) = []
       \<and> files_written (snd (handle_export env req)) = []"
  using assms by (simp add: handle_export_def no_effects_fields)

theorem empty_segments_rejected_witness:
  "handle_export demo_env (demo_request [] False)
     = ((400, NoSegments), \<lparr> run_calls = [], temp_dirs = [], files_written = [] \<rparr>)"
proof -
  have "segments (demo_request [] False) = []" by (simp add: demo_request_def)
  from empty_segments_rejected[OF this, of demo_env]
  show ?thesis by (simp add: no_effects_def)
qed

text \<open>
  Claim C5. In a multi-segment export, when the invocation of segment \<open>k\<close> (counted
  from 0) has run and ended with a return code other than 0, the answer is the error
  of segment number \<open>k + 1\<close> with the last 300 characters at most of the tool's
  diagnostic output; that invocation is the last call made (no later segment is run,
  the concatenation is not run), no manifest is written, and the temporary directory
  is removed.
\<close>

theorem failing_segment_reported:
  assumes "2 \<le> length (segments req)"
    and "k < length (segments req)"
    and "k < length (run_calls (snd (handle_export env req)))"
    and "run_outcome env k = Completed rc err" and "rc \<noteq> 0"
  shows "fst (handle_export env req) = (500, SegmentError (k + 1) (tail_chars 300 err))
       \<and> length (tail_chars 300 err) \<le> 300
       \<and> length (run_calls (snd (handle_export env req))) = k + 1
       \<and> files_written (snd (handle_export env req)) = []
       \<and> temp_dirs (snd (handle_export env req)) = []"
proof -
  from assms(1) have ne: "segments req \<noteq> []" and multi: "length (segments req) \<noteq> 1"
    by auto
  obtain fl w where br: "export_branch env req (output_path_of env req) no_effects = (fl, w)"
    by (cases "export_branch env req (output_path_of env req) no_effects") auto
  have w: "snd (handle_export env req) = w"
    using ne br by (rule handle_export_branch(1))
  from br multi have m: "export_multi env (source req) (vflip req) (segments req)
                         (output_path_of env req) no_effects = (fl, w)"
    by (simp add: export_branch_def)
  let ?r = "(500, SegmentError (k + 1) (tail_chars 300 err))"
  from m assms(2) assms(3)[unfolded w]
  obtain temp_dir fl1 w1 where l:
    "segment_loop env (source req) (vflip req) temp_dir 0 (segments req) []
       (no_effects\<lparr> temp_dirs := temp_dirs no_effects @ [temp_dir] \<rparr>) = (fl1, w1)"
    "k < length (run_calls w1)"
    "fl1 = Return ?r \<Longrightarrow> fl = Return ?r \<and> w = w1"
    by (rule export_multi_loop_calls) blast
  from segment_loop_nonzero_exit[OF l(1) _ l(2) assms(4,5)]
  have f: "fl1 = Return ?r" "length (run_calls w1) = k + 1"
    "temp_dirs w1 = []" "files_written w1 = []"
    by (simp_all add: no_effects_fields)
  with l(3) have "fl = Return ?r" "w = w1" by simp_all
  with f w handle_export_branch(2)[OF ne br, of ?r] show ?thesis
    by (simp add: tail_chars_def)
qed

text \<open>Three ranges, the second invocation fails with return code 1: the answer names
  segment 2, two calls were made, nothing was written, the directory is gone.\<close>

theorem failing_segment_reported_witness:
  "fst (handle_export second_fails_env
          (demo_request [float_range 0 10, float_range 20 30, float_range 40 50] False))
     = (500, SegmentError 2 ''boom'')
   \<and> length (run_calls (snd (handle_export second_fails_env
          (demo_request [float_range 0 10, float_range 20 30, float_range 40 50] False)))) = 2
   \<and> files_written (snd (handle_export second_fails_env
          (demo_request [float_range 0 10, float_range 20 30, float_range 40 50] False))) = []
   \<and> temp_dirs (snd (handle_export second_fails_env
          (demo_request [float_range 0 10, float_range 20 30, float_range 40 50] False))) = []"
proof -
  let ?req = "demo_request [float_range 0 10, float_range 20 30, float_range 40 50] False"
  have h1: "2 \<le> length (segments ?req)" and h2: "1 < length (segments ?req)"
    by (simp_all add: demo_request_fields)
  have h3: "1 < length (run_calls (snd (handle_export second_fails_env ?req)))"
    by (simp add: eval_second_fails)
  have h4: "run_outcome second_fails_env 1 = Completed 1 ''boom''"
    by (simp add: demo_env_fields)
  have h5: "(1::int) \<noteq> 0" by simp
  from failing_segment_reported[OF h1 h2 h3 h4 h5]
  show ?thesis by (simp add: tail_chars_def)
qed

text \<open>
  Claim C1 fails on the code. Two ranges, the temporary directory \<^verbatim>\<open>/tmp/tmpx\<close> is
  created, and the first invocation runs into the timeout: \<^verbatim>\<open>subprocess.run\<close> raises
  \<^verbatim>\<open>TimeoutExpired\<close>, the handler answers with status 500 and the timeout error, and
  the directory is still there when it returns.
\<close>

theorem temp_dir_left_after_timeout:
  "handle_export timeout_env (demo_request [float_range 0 10, float_range 20 30] False)
   = ((500, TimedOut),
      \<lparr> run_calls =
          [[''ffmpeg'', ''-y'', ''-ss'', ''0.0000'', ''-i'', ''/v/video.mp4'', ''-t'', ''10.0000'',
            ''-c'', ''copy'', ''-avoid_negative_ts'', ''make_zero'', ''-f'', ''mpegts'',
            ''/tmp/tmpx/seg_0000.ts'']],
        temp_dirs = [''/tmp/tmpx''], files_written = [] \<rparr>)"
  by (rule eval_timeout)

text \<open>
  Claim C2 as stated fails: a single range from second 5 to second 3 (\<open>out \<le> in\<close>) is
  not rejected. The transcoder is invoked with the duration \<^verbatim>\<open>-2.0000\<close> and, as the
  process ends with return code 0, the answer is the success answer.
\<close>

theorem inverted_range_counterexample:
  "num_le (seg_out (float_range 5 3)) (seg_in (float_range 5 3))
   \<and> handle_export demo_env (demo_request [float_range 5 3] False)
       = ((200, Success ''/v/video_cut.mp4'' 1024),
          \<lparr> run_calls =
              [[''ffmpeg'', ''-y'', ''-ss'', ''5.0000'', ''-i'', ''/v/video.mp4'', ''-t'',
                ''-2.0000'', ''-c'', ''copy'', ''-avoid_negative_ts'', ''make_zero'',
                ''/v/video_cut.mp4'']],
            temp_dirs = [], files_written = [] \<rparr>)"
proof
  show "num_le (seg_out (float_range 5 3)) (seg_in (float_range 5 3))"
    by (simp add: float_range_def signed_def)
qed (rule eval_inverted)

text \<open>
  Claim C2, as amended. The handler does not compare the two ends of a range. For a
  request whose first range has \<open>out \<le> in\<close> (its times being numbers that can be
  formatted, and the temporary directory being created when there are several
  ranges), the answer is never the validation error (status 400), and the first call
  made is the transcoder invocation of that range, with the start \<open>in\<close> and the
  duration \<open>out - in\<close> in \<^verbatim>\<open>.4f\<close> format.
\<close>

theorem inverted_range_invoked:
  assumes "segments req = seg # rest"
    and "num_le (seg_out seg) (seg_in seg)"
    and "num_sub (seg_out seg) (seg_in seg) = Inr d"
    and "num_format_4f (seg_in seg) = Inr ss"
    and "num_format_4f d = Inr t"
    and "rest = [] \<or> (\<exists>dir. mkdtemp env = Inr dir)"
  shows "fst (fst (handle_export env req)) \<noteq> 400
       \<and> run_calls (snd (handle_export env req)) \<noteq> []
       \<and> take 8 (hd (run_calls (snd (handle_export env req))))
           = [''ffmpeg'', ''-y'', ''-ss'', ss, ''-i'', source req, ''-t'', t]"
proof -
  define cmd where "cmd tail = [''ffmpeg'', ''-y'', ''-ss'', ss, ''-i'', source req, ''-t'', t]
      @ codec_args (vflip req) @ [''-avoid_negative_ts'', ''make_zero''] @ tail" for tail
  have build: "segment_cmd (source req) seg (vflip req) tail = Inr (cmd tail)" for tail
    using assms(3-5) by (simp add: segment_cmd_def cmd_def)
  from handle_export_first_call[OF assms(1) build assms(6)]
  obtain tail cs where "run_calls (snd (handle_export env req)) = cmd tail # cs"
    by blast
  moreover from assms(1) have "segments req \<noteq> []" by simp
  from handle_export_status[OF this, of env]
  have "fst (fst (handle_export env req)) \<noteq> 400" by auto
  ultimately show ?thesis by (simp add: cmd_def)
qed

theorem inverted_range_invoked_witness:
  "fst (fst (handle_export demo_env (demo_request [float_range 5 3] False))) \<noteq> 400
   \<and> run_calls (snd (handle_export demo_env (demo_request [float_range 5 3] False))) \<noteq> []
   \<and> take 8 (hd (run_calls (snd (handle_export demo_env (demo_request [float_range 5 3] False)))))
       = [''ffmpeg'', ''-y'', ''-ss'', ''5.0000'', ''-i'', ''/v/video.mp4'', ''-t'', ''-2.0000'']"
proof -
  let ?req = "demo_request [float_range 5 3] False"
  have h1: "segments ?req = float_range 5 3 # []" by (simp add: demo_request_fields)
  have h2: "num_le (seg_out (float_range 5 3)) (seg_in (float_range 5 3))"
    by (simp add: float_range_def signed_def)
  have h3: "num_sub (seg_out (float_range 5 3)) (seg_in (float_range 5 3))
              = Inr (PyFloat (Finite True 2))"
    using float_sub_whole[of 5 3] by (simp add: float_range_def del: float_sub.simps)
  have h4: "num_format_4f (seg_in (float_range 5 3)) = Inr ''5.0000''"
    using format_4f_whole[of False 5]
    by (simp add: float_range_def str_nat_examples del: format_4f.simps)
  have h5: "num_format_4f (PyFloat (Finite True 2)) = Inr ''-2.0000''"
    using format_4f_whole[of True 2] by (simp add: str_nat_examples del: format_4f.simps)
  have h6: "[] = ([] :: segment list) \<or> (\<exists>dir. mkdtemp demo_env = Inr dir)" by simp
  from inverted_range_invoked[OF h1 h2 h3 h4 h5 h6]
  show ?thesis by (simp add: demo_request_fields)
qed

text \<open>
  Claim C8. Every per-segment invocation the handler runs is
  \<^verbatim>\<open>ffmpeg -y -ss <start> -i <source> -t <duration>\<close>, then the codec arguments, then
  \<^verbatim>\<open>-avoid_negative_ts make_zero\<close> and the target (the output path, or \<^verbatim>\<open>-f mpegts\<close>
  and an intermediate file). Without the flip the codec arguments are \<^verbatim>\<open>-c copy\<close> and
  nothing else; with the flip they are the filter \<^verbatim>\<open>-vf vflip\<close>, the video encoder
  \<^verbatim>\<open>-c:v libx264 -preset medium -crf 18\<close> and \<^verbatim>\<open>-c:a copy\<close> for the audio. The
  command is the value of \<open>segment_cmd\<close>, a function of the source, the range, the flag
  and the target alone.
\<close>

theorem invocation_codec_arguments:
  assumes "k < length (segments req)"
    and "k < length (run_calls (snd (handle_export env req)))"
  shows "\<exists>ss t tail.
           run_calls (snd (handle_export env req)) ! k
             = [''ffmpeg'', ''-y'', ''-ss'', ss, ''-i'', source req, ''-t'', t]
               @ (if vflip req
                  then [''-vf'', ''vflip'', ''-c:v'', ''libx264'', ''-preset'', ''medium'',
                        ''-crf'', ''18'', ''-c:a'', ''copy'']
                  else [''-c'', ''copy''])
               @ [''-avoid_negative_ts'', ''make_zero''] @ tail
         \<and> (tail = [output_path_of env req] \<or> (\<exists>tmp. tail = [''-f'', ''mpegts'', tmp]))
         \<and> segment_cmd (source req) (segments req ! k) (vflip req) tail
             = Inr (run_calls (snd (handle_export env req)) ! k)"
proof -
  from handle_export_nth_call[OF assms] obtain tail where tail:
    "segment_cmd (source req) (segments req ! k) (vflip req) tail
       = Inr (run_calls (snd (handle_export env req)) ! k)"
    "tail = [output_path_of env req] \<or> (\<exists>tmp. tail = [''-f'', ''mpegts'', tmp])"
    by blast
  from tail(1) obtain ss t where
    "run_calls (snd (handle_export env req)) ! k
       = [''ffmpeg'', ''-y'', ''-ss'', ss, ''-i'', source req, ''-t'', t]
         @ codec_args (vflip req) @ [''-avoid_negative_ts'', ''make_zero''] @ tail"
    by (rule segment_cmd_Inr)
  then have "run_calls (snd (handle_export env req)) ! k
             = [''ffmpeg'', ''-y'', ''-ss'', ss, ''-i'', source req, ''-t'', t]
               @ (if vflip req
                  then [''-vf'', ''vflip'', ''-c:v'', ''libx264'', ''-preset'', ''medium'',
                        ''-crf'', ''18'', ''-c:a'', ''copy'']
                  else [''-c'', ''copy''])
               @ [''-avoid_negative_ts'', ''make_zero''] @ tail"
    by (simp add: codec_args_def)
  with tail show ?thesis by blast
qed

text \<open>The range from second 10 to second 30 of \<^verbatim>\<open>/v/video.mp4\<close>, without and with the
  flip.\<close>

theorem invocation_codec_arguments_witness:
  "run_calls (snd (handle_export demo_env (demo_request [float_range 10 30] False))) ! 0
     = [''ffmpeg'', ''-y'', ''-ss'', ''10.0000'', ''-i'', ''/v/video.mp4'', ''-t'', ''20.0000'',
        ''-c'', ''copy'', ''-avoid_negative_ts'', ''make_zero'', ''/v/video_cut.mp4'']
   \<and> run_calls (snd (handle_export demo_env (demo_request [float_range 10 30] True))) ! 0
     = [''ffmpeg'', ''-y'', ''-ss'', ''10.0000'', ''-i'', ''/v/video.mp4'', ''-t'', ''20.0000'',
        ''-vf'', ''vflip'', ''-c:v'', ''libx264'', ''-preset'', ''medium'', ''-crf'', ''18'',
        ''-c:a'', ''copy'', ''-avoid_negative_ts'', ''make_zero'', ''/v/video_cut.mp4'']
   \<and> (\<exists>ss t tail.
         run_calls (snd (handle_export demo_env (demo_request [float_range 10 30] False))) ! 0
           = [''ffmpeg'', ''-y'', ''-ss'', ss, ''-i'', ''/v/video.mp4'', ''-t'', t,
              ''-c'', ''copy'', ''-avoid_negative_ts'', ''make_zero''] @ tail)
   \<and> (\<exists>ss t tail.
         run_calls (snd (handle_export demo_env (demo_request [float_range 10 30] True))) ! 0
           = [''ffmpeg'', ''-y'', ''-ss'', ss, ''-i'', ''/v/video.mp4'', ''-t'', t,
              ''-vf'', ''vflip'', ''-c:v'', ''libx264'', ''-preset'', ''medium'', ''-crf'', ''18'',
              ''-c:a'', ''copy'', ''-avoid_negative_ts'', ''make_zero''] @ tail)"
proof -
  let ?copy = "demo_request [float_range 10 30] False"
  let ?flip = "demo_request [float_range 10 30] True"
  have c: "0 < length (segments ?copy)"
    "0 < length (run_calls (snd (handle_export demo_env ?copy)))"
    by (simp_all add: demo_request_fields eval_single_copy)
  have f: "0 < length (segments ?flip)"
    "0 < length (run_calls (snd (handle_export demo_env ?flip)))"
    by (simp_all add: demo_request_fields eval_single_flip)
  from invocation_codec_arguments[OF c] invocation_codec_arguments[OF f]
  show ?thesis
    by (simp add: demo_request_fields) (auto simp add: eval_single_copy eval_single_flip)
qed

text \<open>
  Claim C9. In every per-segment invocation the handler runs, the argument after
  \<^verbatim>\<open>-ss\<close> is the range's \<open>in\<close> value in \<^verbatim>\<open>.4f\<close> format and the argument after \<^verbatim>\<open>-t\<close> is
  \<open>out - in\<close> in \<^verbatim>\<open>.4f\<close> format. For an int or a finite float that format is text with
  exactly four decimal places; the difference of two finite floats is finite as long
  as its exact magnitude stays below \<open>2 ^ 1024 - 2 ^ 970\<close>, as it does for the two ends
  of a range of non-negative seconds; and for a float the text denotes, up to its
  sign, a number within half a unit of the fourth decimal place of the float's
  magnitude. The range from 10.0 to 30.0 has the float difference 20.0, formatted
  \<^verbatim>\<open>20.0000\<close>.

  The same holds of times that are ints, as whole seconds arrive from JSON. The text
  of an int or a finite float denotes, sign included, the number itself within half a
  unit of the fourth decimal place, plus, for an int of \<open>2 ^ 53\<close> or more, the error of
  its conversion to a float; an int below \<open>2 ^ 53\<close> in magnitude is formatted as its own
  decimal digits followed by \<^verbatim>\<open>.0000\<close>. The conversion of an int succeeds below
  \<open>2 ^ 1024 - 2 ^ 970\<close> and, where it succeeds, gives a finite float within the
  conversion error of the int. The difference of two ints is the exact int; a finite
  difference of any two times, ints or floats, is within the conversion errors and
  one rounding to 53 bits of the exact difference. The range from the int 10 to the
  int 30 has the int difference 20, formatted \<^verbatim>\<open>20.0000\<close>.
\<close>

theorem time_arguments_four_decimals:
  "(k < length (segments req) \<and> k < length (run_calls (snd (handle_export env req))) \<longrightarrow>
      (\<exists>ss d t. num_format_4f (seg_in (segments req ! k)) = Inr ss
          \<and> num_sub (seg_out (segments req ! k)) (seg_in (segments req ! k)) = Inr d
          \<and> num_format_4f d = Inr t
          \<and> take 8 (run_calls (snd (handle_export env req)) ! k)
              = [''ffmpeg'', ''-y'', ''-ss'', ss, ''-i'', source req, ''-t'', t]))
   \<and> (is_finite x \<and> num_format_4f x = Inr s \<longrightarrow> four_decimals s)
   \<and> (\<bar>signed sb b - signed sa a\<bar> < pow2 1024 - pow2 970 \<longrightarrow>
        is_finite (PyFloat (float_sub (Finite sb b) (Finite sa a))))
   \<and> (0 \<le> m \<longrightarrow> \<bar>decimal_magnitude (format_4f (Finite sg m)) - m\<bar> \<le> 1 / 20000)
   \<and> num_sub (PyFloat (Finite False 30)) (PyFloat (Finite False 10))
       = Inr (PyFloat (Finite False 20))
   \<and> num_format_4f (PyFloat (Finite False 20)) = Inr ''20.0000''
   \<and> (is_finite x \<and> well_formed x \<and> num_format_4f x = Inr s \<longrightarrow>
        \<bar>text_value s - num_value x\<bar> \<le> 1 / 20000 + conversion_slack x)
   \<and> (\<bar>n\<bar> < 2 ^ 53 \<longrightarrow>
        num_format_4f (PyInt n)
          = Inr ((if n < 0 then ''-'' else []) @ str_nat (nat \<bar>n\<bar>) @ ''.0000''))
   \<and> (\<bar>of_int n\<bar> < pow2 1024 - pow2 970 \<longrightarrow> (\<exists>g. int_to_float n = Inr g))
   \<and> (int_to_float n = Inr f \<longrightarrow>
        is_finite (PyFloat f) \<and> well_formed (PyFloat f)
        \<and> \<bar>num_value (PyFloat f) - of_int n\<bar> \<le> conversion_slack (PyInt n))
   \<and> num_sub (PyInt ib) (PyInt ia) = Inr (PyInt (ib - ia))
   \<and> (is_finite y \<and> is_finite z \<and> well_formed y \<and> well_formed z
        \<and> num_sub z y = Inr w \<and> is_finite w \<longrightarrow>
        well_formed w
        \<and> \<bar>num_value w - (num_value z - num_value y)\<bar>
            \<le> conversion_slack y + conversion_slack z
              + max ((\<bar>num_value z - num_value y\<bar> + conversion_slack y + conversion_slack z)
                       / 2 ^ 53) (pow2 (- 1075)))
   \<and> num_sub (PyInt 30) (PyInt 10) = Inr (PyInt 20)
   \<and> num_format_4f (PyInt 20) = Inr ''20.0000''"
proof (intro conjI impI)
  assume a: "k < length (segments req) \<and> k < length (run_calls (snd (handle_export env req)))"
  then have "k < length (segments req)"
    "k < length (run_calls (snd (handle_export env req)))" by simp_all
  from handle_export_nth_call[OF this] obtain tail where
    "segment_cmd (source req) (segments req ! k) (vflip req) tail
       = Inr (run_calls (snd (handle_export env req)) ! k)"
    by blast
  then obtain ss d t where
    "num_sub (seg_out (segments req ! k)) (seg_in (segments req ! k)) = Inr d"
    "num_format_4f (seg_in (segments req ! k)) = Inr ss"
    "num_format_4f d = Inr t"
    "run_calls (snd (handle_export env req)) ! k
       = [''ffmpeg'', ''-y'', ''-ss'', ss, ''-i'', source req, ''-t'', t]
         @ codec_args (vflip req) @ [''-avoid_negative_ts'', ''make_zero''] @ tail"
    by (rule segment_cmd_Inr)
  then show "\<exists>ss d t. num_format_4f (seg_in (segments req ! k)) = Inr ss
          \<and> num_sub (seg_out (segments req ! k)) (seg_in (segments req ! k)) = Inr d
          \<and> num_format_4f d = Inr t
          \<and> take 8 (run_calls (snd (handle_export env req)) ! k)
              = [''ffmpeg'', ''-y'', ''-ss'', ss, ''-i'', source req, ''-t'', t]"
    by simp
next
  assume "is_finite x \<and> num_format_4f x = Inr s"
  then show "four_decimals s" by (auto intro: num_format_4f_shape)
next
  assume "\<bar>signed sb b - signed sa a\<bar> < pow2 1024 - pow2 970"
  then show "is_finite (PyFloat (float_sub (Finite sb b) (Finite sa a)))"
    by (rule float_sub_finite)
next
  assume "0 \<le> m"
  then show "\<bar>decimal_magnitude (format_4f (Finite sg m)) - m\<bar> \<le> 1 / 20000"
    by (rule format_4f_accurate)
next
  show "num_sub (PyFloat (Finite False 30)) (PyFloat (Finite False 10))
       = Inr (PyFloat (Finite False 20))"
    using float_sub_whole[of 10 30] by (simp del: float_sub.simps)
next
  show "num_format_4f (PyFloat (Finite False 20)) = Inr ''20.0000''"
    using format_4f_whole[of False 20] by (simp add: str_nat_examples del: format_4f.simps)
next
  assume "is_finite x \<and> well_formed x \<and> num_format_4f x = Inr s"
  then have "is_finite x" "well_formed x" "num_format_4f x = Inr s" by simp_all
  then show "\<bar>text_value s - num_value x\<bar> \<le> 1 / 20000 + conversion_slack x"
    by (rule num_format_4f_close)
next
  assume "\<bar>n\<bar> < 2 ^ 53"
  then show "num_format_4f (PyInt n)
          = Inr ((if n < 0 then ''-'' else []) @ str_nat (nat \<bar>n\<bar>) @ ''.0000'')"
    by (rule num_format_4f_small_int)
next
  assume "\<bar>of_int n\<bar> < pow2 1024 - pow2 970"
  then show "\<exists>g. int_to_float n = Inr g" by (rule int_to_float_in_range)
next
  assume c: "int_to_float n = Inr f"
  from int_to_float_value[OF c] obtain s' r where r: "f = Finite s' r" "0 \<le> r"
    "\<bar>signed s' r - of_int n\<bar> \<le> conversion_slack (PyInt n)"
    by blast
  from r show "is_finite (PyFloat f)" by simp
  from r show "well_formed (PyFloat f)" by simp
  from r show "\<bar>num_value (PyFloat f) - of_int n\<bar> \<le> conversion_slack (PyInt n)" by simp
next
  show "num_sub (PyInt ib) (PyInt ia) = Inr (PyInt (ib - ia))" by simp
next
  assume c: "is_finite y \<and> is_finite z \<and> well_formed y \<and> well_formed z
        \<and> num_sub z y = Inr w \<and> is_finite w"
  then have "is_finite y" "is_finite z" "well_formed y" "well_formed z"
    "num_sub z y = Inr w" "is_finite w"
    by simp_all
  from num_sub_close[OF this]
  show "well_formed w"
    and "\<bar>num_value w - (num_value z - num_value y)\<bar>
            \<le> conversion_slack y + conversion_slack z
              + max ((\<bar>num_value z - num_value y\<bar> + conversion_slack y + conversion_slack z)
                       / 2 ^ 53) (pow2 (- 1075))"
    by blast+
next
  show "num_sub (PyInt 30) (PyInt 10) = Inr (PyInt 20)" by simp
next
  show "num_format_4f (PyInt 20) = Inr ''20.0000''"
    using num_format_4f_small_int[of 20] by (simp add: str_nat_examples del: num_format_4f.simps)
qed

text \<open>The export of the range from 10.0 to 30.0: the two arguments are \<^verbatim>\<open>10.0000\<close> and
  \<^verbatim>\<open>20.0000\<close>; \<^verbatim>\<open>20.0000\<close> has four decimal places and denotes 20. The export of the range
  from the int 10 to the int 30 has the same two arguments: the int 20 is converted to
  the float 20.0 and formatted \<^verbatim>\<open>20.0000\<close>, which denotes 20 exactly; and the float 30.0
  less the int 10 is the float 20.0.\<close>

theorem time_arguments_four_decimals_witness:
  "take 8 (run_calls (snd (handle_export demo_env (demo_request [float_range 10 30] False))) ! 0)
     = [''ffmpeg'', ''-y'', ''-ss'', ''10.0000'', ''-i'', ''/v/video.mp4'', ''-t'', ''20.0000'']
   \<and> four_decimals ''20.0000''
   \<and> \<bar>decimal_magnitude (format_4f (Finite False 20)) - 20\<bar> \<le> 1 / 20000
   \<and> format_4f (Finite False 20) = ''20.0000''
   \<and> num_sub (seg_out (float_range 10 30)) (seg_in (float_range 10 30))
       = Inr (PyFloat (Finite False 20))
   \<and> is_finite (PyFloat (float_sub (Finite False 30) (Finite False 10)))
   \<and> take 8 (run_calls (snd (handle_export demo_env (demo_request [int_range 10 30] False))) ! 0)
       = [''ffmpeg'', ''-y'', ''-ss'', ''10.0000'', ''-i'', ''/v/video.mp4'', ''-t'', ''20.0000'']
   \<and> num_sub (seg_out (int_range 10 30)) (seg_in (int_range 10 30)) = Inr (PyInt 20)
   \<and> num_format_4f (PyInt 20) = Inr ''20.0000''
   \<and> num_format_4f (PyInt 10) = Inr ''10.0000''
   \<and> int_to_float 20 = Inr (Finite False 20)
   \<and> \<bar>text_value ''20.0000'' - 20\<bar> \<le> 1 / 20000
   \<and> num_sub (PyFloat (Finite False 30)) (PyInt 10) = Inr (PyFloat (Finite False 20))
   \<and> \<bar>num_value (PyFloat (Finite False 20)) - (30 - 10)\<bar> \<le> max (20 / 2 ^ 53) (pow2 (- 1075))"
proof -
  let ?req = "demo_request [float_range 10 30] False"
  let ?ireq = "demo_request [int_range 10 30] False"
  (* The theorem at the float range, conjunct by conjunct. *)
  note T = time_arguments_four_decimals[where k = 0 and req = ?req and env = demo_env
      and x = "PyFloat (Finite False 20)" and s = "''20.0000''" and m = 20 and sg = False
      and sb = False and b = 30 and sa = False and a = 10]
  note T2 = T[THEN conjunct2, THEN conjunct1]
  note T3 = T[THEN conjunct2, THEN conjunct2, THEN conjunct1]
  note T4 = T[THEN conjunct2, THEN conjunct2, THEN conjunct2, THEN conjunct1]
  note T5 = T[THEN conjunct2, THEN conjunct2, THEN conjunct2, THEN conjunct2, THEN conjunct1]
  note T6 = T[THEN conjunct2, THEN conjunct2, THEN conjunct2, THEN conjunct2, THEN conjunct2,
      THEN conjunct1]
  have i: "is_finite (PyFloat (Finite False 20))" by simp
  have j: "(0::rat) \<le> 20" by simp
  have e: "take 8 (run_calls (snd (handle_export demo_env ?req)) ! 0)
     = [''ffmpeg'', ''-y'', ''-ss'', ''10.0000'', ''-i'', ''/v/video.mp4'', ''-t'', ''20.0000'']"
    by (simp add: eval_single_copy)
  have r: "seg_out (float_range 10 30) = PyFloat (Finite False 30)"
    "seg_in (float_range 10 30) = PyFloat (Finite False 10)"
    by (simp_all add: float_range_def)
  have small: "\<bar>signed False 30 - signed False 10\<bar> < pow2 1024 - pow2 970"
    by (simp add: signed_def pow2_def)
  have t5: "is_finite (PyFloat (float_sub (Finite False 30) (Finite False 10)))"
    using T3 small by (rule mp)
  have f: "num_format_4f (PyFloat (Finite False 20)) = Inr ''20.0000''"
    by (rule T6)
  have t1: "four_decimals ''20.0000''" using T2 i f by blast
  have t2: "\<bar>decimal_magnitude (format_4f (Finite False 20)) - 20\<bar> \<le> 1 / 20000"
    using T4 j by (rule mp)
  have t3: "format_4f (Finite False 20) = ''20.0000''"
    using f by (simp del: format_4f.simps)
  have t4: "num_sub (PyFloat (Finite False 30)) (PyFloat (Finite False 10))
       = Inr (PyFloat (Finite False 20))"
    by (rule T5)
  (* The theorem at the int range. *)
  note U = time_arguments_four_decimals[where k = 0 and req = ?ireq and env = demo_env
      and x = "PyInt 20" and s = "''20.0000''" and n = 20 and f = "Finite False 20"
      and ib = 30 and ia = 10 and z = "PyFloat (Finite False 30)" and y = "PyInt 10"
      and w = "PyFloat (Finite False 20)"]
  note U1 = U[THEN conjunct1]
  note R6 = U[THEN conjunct2, THEN conjunct2, THEN conjunct2, THEN conjunct2, THEN conjunct2,
      THEN conjunct2]
  note U7 = R6[THEN conjunct1]
  note U8 = R6[THEN conjunct2, THEN conjunct1]
  note U9 = R6[THEN conjunct2, THEN conjunct2, THEN conjunct1]
  note U10 = R6[THEN conjunct2, THEN conjunct2, THEN conjunct2, THEN conjunct1]
  note U11 = R6[THEN conjunct2, THEN conjunct2, THEN conjunct2, THEN conjunct2, THEN conjunct1]
  note U12 = R6[THEN conjunct2, THEN conjunct2, THEN conjunct2, THEN conjunct2, THEN conjunct2,
      THEN conjunct1]
  note U14 = R6[THEN conjunct2, THEN conjunct2, THEN conjunct2, THEN conjunct2, THEN conjunct2,
      THEN conjunct2, THEN conjunct2]
  note V8 = time_arguments_four_decimals[where n = 10, THEN conjunct2, THEN conjunct2,
      THEN conjunct2, THEN conjunct2, THEN conjunct2, THEN conjunct2, THEN conjunct2,
      THEN conjunct1]
  have ir: "seg_out (int_range 10 30) = PyInt 30" "seg_in (int_range 10 30) = PyInt 10"
    by (simp_all add: int_range_def)
  have len: "0 < length (segments ?ireq)
      \<and> 0 < length (run_calls (snd (handle_export demo_env ?ireq)))"
    by (simp add: demo_request_fields eval_single_int)
  have n20: "\<bar>20 :: int\<bar> < 2 ^ 53" by simp
  have n10: "\<bar>10 :: int\<bar> < 2 ^ 53" by simp
  have u1: "num_sub (PyInt 30) (PyInt 10) = Inr (PyInt 20)"
    using U11 by simp
  have u2: "num_format_4f (PyInt 20) = Inr ''20.0000''"
    by (rule U14)
  have "num_format_4f (PyInt 10)
          = Inr ((if (10::int) < 0 then ''-'' else []) @ str_nat (nat \<bar>10\<bar>) @ ''.0000'')"
    using V8 n10 by (rule mp)
  then have u3: "num_format_4f (PyInt 10) = Inr ''10.0000''"
    by (simp add: str_nat_examples del: num_format_4f.simps)
  from U1 len have "\<exists>ss d t. num_format_4f (seg_in (segments ?ireq ! 0)) = Inr ss
          \<and> num_sub (seg_out (segments ?ireq ! 0)) (seg_in (segments ?ireq ! 0)) = Inr d
          \<and> num_format_4f d = Inr t
          \<and> take 8 (run_calls (snd (handle_export demo_env ?ireq)) ! 0)
              = [''ffmpeg'', ''-y'', ''-ss'', ss, ''-i'', source ?ireq, ''-t'', t]"
    by (rule mp)
  then obtain ss d t where c:
    "num_format_4f (seg_in (segments ?ireq ! 0)) = Inr ss"
    "num_sub (seg_out (segments ?ireq ! 0)) (seg_in (segments ?ireq ! 0)) = Inr d"
    "num_format_4f d = Inr t"
    "take 8 (run_calls (snd (handle_export demo_env ?ireq)) ! 0)
       = [''ffmpeg'', ''-y'', ''-ss'', ss, ''-i'', source ?ireq, ''-t'', t]"
    by blast
  have seg0: "segments ?ireq ! 0 = int_range 10 30" by (simp add: demo_request_fields)
  from c(1) have "num_format_4f (PyInt 10) = Inr ss" by (simp only: seg0 ir)
  with u3 have ss: "ss = ''10.0000''" by (simp only: sum.inject)
  from c(2) have "num_sub (PyInt 30) (PyInt 10) = Inr d" by (simp only: seg0 ir)
  with u1 have d: "d = PyInt 20" by (simp only: sum.inject)
  from c(3) have "num_format_4f (PyInt 20) = Inr t" by (simp only: d)
  with u2 have t: "t = ''20.0000''" by (simp only: sum.inject)
  have u4: "take 8 (run_calls (snd (handle_export demo_env ?ireq)) ! 0)
       = [''ffmpeg'', ''-y'', ''-ss'', ''10.0000'', ''-i'', ''/v/video.mp4'', ''-t'', ''20.0000'']"
    using c(4) by (simp only: ss t demo_request_fields)
  (* The conversion of the int 20. *)
  have big: "\<bar>of_int (20::int) :: rat\<bar> < pow2 1024 - pow2 970"
    by (simp add: pow2_def)
  from U9 big have "\<exists>g. int_to_float 20 = Inr g" by (rule mp)
  then obtain g where g: "int_to_float 20 = Inr g" by blast
  note W10 = time_arguments_four_decimals[where n = 20 and f = g, THEN conjunct2,
      THEN conjunct2, THEN conjunct2, THEN conjunct2, THEN conjunct2, THEN conjunct2,
      THEN conjunct2, THEN conjunct2, THEN conjunct2, THEN conjunct1]
  from W10 g have gv: "is_finite (PyFloat g) \<and> well_formed (PyFloat g)
      \<and> \<bar>num_value (PyFloat g) - of_int 20\<bar> \<le> conversion_slack (PyInt 20)"
    by (rule mp)
  from gv obtain gs gm where gf: "g = Finite gs gm" by (cases g) auto
  from gv have "0 \<le> gm" "signed gs gm = 20" by (simp_all add: gf)
  then have "gm = 20 \<and> \<not> gs" by (cases gs) (simp_all add: signed_def)
  with g gf have u5: "int_to_float 20 = Inr (Finite False 20)" by simp
  have fin: "is_finite (PyInt 20) \<and> well_formed (PyInt 20)
      \<and> num_format_4f (PyInt 20) = Inr ''20.0000''"
    using u2 by (simp del: num_format_4f.simps)
  from U7 fin have "\<bar>text_value ''20.0000'' - num_value (PyInt 20)\<bar>
        \<le> 1 / 20000 + conversion_slack (PyInt 20)"
    by (rule mp)
  then have u6: "\<bar>text_value ''20.0000'' - 20\<bar> \<le> 1 / 20000" by simp
  (* The float 30.0 less the int 10. *)
  have u7: "num_sub (PyFloat (Finite False 30)) (PyInt 10) = Inr (PyFloat (Finite False 20))"
    using float_sub_whole[of 10 30] int_to_float_small[OF n10]
    by (simp del: float_sub.simps)
  have h: "is_finite (PyInt 10) \<and> is_finite (PyFloat (Finite False 30))
      \<and> well_formed (PyInt 10) \<and> well_formed (PyFloat (Finite False 30))
      \<and> num_sub (PyFloat (Finite False 30)) (PyInt 10) = Inr (PyFloat (Finite False 20))
      \<and> is_finite (PyFloat (Finite False 20))"
    using u7 by (simp del: num_sub.simps)
  from U12 h have "well_formed (PyFloat (Finite False 20))
     \<and> \<bar>num_value (PyFloat (Finite False 20))
        - (num_value (PyFloat (Finite False 30)) - num_value (PyInt 10))\<bar>
      \<le> conversion_slack (PyInt 10) + conversion_slack (PyFloat (Finite False 30))
        + max ((\<bar>num_value (PyFloat (Finite False 30)) - num_value (PyInt 10)\<bar>
                + conversion_slack (PyInt 10) + conversion_slack (PyFloat (Finite False 30)))
               / 2 ^ 53) (pow2 (- 1075))"
    by (rule mp)
  then have u8: "\<bar>num_value (PyFloat (Finite False 20)) - (30 - 10)\<bar>
      \<le> max (20 / 2 ^ 53) (pow2 (- 1075))"
    by (simp add: signed_def)
  from e t1 t2 t3 t4 t5 u4 u1 u2 u3 u5 u6 u7 u8 show ?thesis by (simp only: r ir)
qed

end
